theory Spec2Isabelle
  imports Main
begin

section \<open>Error handler (lib/utils/error-handler)\<close>

subsection \<open>Raw errors\<close>

text \<open>
  The classifiers take \<open>error: any\<close> and read a handful of properties from it:
  \<open>response.status\<close>, \<open>response.data.message\<close>, \<open>response.data.error\<close>,
  \<open>response.data.errors\<close>, \<open>request\<close>, \<open>code\<close> and \<open>message\<close>. An absent
  (\<open>undefined\<close>/\<open>null\<close>) property is \<open>None\<close>. \<open>data = None\<close> stands for a body
  that has none of the three properties (no body, or a primitive body).
\<close>

record response_data =
  d_message :: "string option"
  d_error :: "string option"
  d_errors :: "(string \<times> string) list option"

record response =
  status :: "int option"
  data :: "response_data option"

record raw_fields =
  response :: "response option"
  request :: bool
  code :: "string option"
  message :: "string option"

datatype err_class =
  AppErrorC | BadRequestErrorC | UnauthorizedErrorC | ForbiddenErrorC | NotFoundErrorC
  | ConflictErrorC | ValidationErrorC | InternalServerErrorC

text \<open>An instance of class \<open>AppError\<close> or of one of its subclasses (\<open>cls\<close>).\<close>

record AppError =
  cls :: err_class
  app_message :: string
  statusCode :: int
  isOperational :: bool

text \<open>
  A value of type \<open>any\<close> as the error handler sees it: \<open>null\<close>/\<open>undefined\<close>, an
  instance of \<open>AppError\<close>, or anything else (an Axios error, a plain \<open>Error\<close>, a
  primitive), given by the properties above.
\<close>

datatype raw_error = Nullish | Thrown_AppError AppError | Raw raw_fields

datatype ErrorCategory =
  C_auth | C_permission | C_validation | C_notfound | C_conflict | C_network | C_timeout
  | C_server | C_business | C_unknown

datatype ErrorType = T_retryable | T_non_retryable | T_business | T_system

datatype js_exception = TypeError

text \<open>
  What reading properties through optional chaining (\<open>error?.p\<close>) gives: nothing on
  \<open>null\<close>/\<open>undefined\<close>; an \<open>AppError\<close> has a \<open>message\<close> (from \<open>Error\<close>) and none
  of the other properties.
\<close>

fun props :: "raw_error \<Rightarrow> raw_fields" where
  "props Nullish = \<lparr>response = None, request = False, code = None, message = None\<rparr>"
| "props (Thrown_AppError a) =
     \<lparr>response = None, request = False, code = None, message = Some (app_message a)\<rparr>"
| "props (Raw f) = f"

text \<open>Truthiness of an optional string: present and not empty.\<close>

fun truthy :: "string option \<Rightarrow> bool" where
  "truthy None = False"
| "truthy (Some s) = (s \<noteq> [])"

text \<open>\<open>String.prototype.includes\<close>.\<close>

fun str_includes :: "string \<Rightarrow> string \<Rightarrow> bool" where
  "str_includes [] sub = (sub = [])"
| "str_includes (c # cs) sub = (take (length sub) (c # cs) = sub \<or> str_includes cs sub)"

text \<open>\<open>error?.message?.includes(sub)\<close>, as a condition (\<open>undefined\<close> is falsy).\<close>

definition message_includes :: "raw_error \<Rightarrow> string \<Rightarrow> bool" where
  "message_includes error sub =
     (case message (props error) of None \<Rightarrow> False | Some m \<Rightarrow> str_includes m sub)"

text \<open>\<open>error?.response?.status\<close>\<close>

definition resp_status :: "raw_error \<Rightarrow> int option" where
  "resp_status error = (case response (props error) of None \<Rightarrow> None | Some r \<Rightarrow> status r)"

text \<open>\<open>error?.response?.data?.message\<close>\<close>

definition resp_data_message :: "raw_error \<Rightarrow> string option" where
  "resp_data_message error =
     (case response (props error) of None \<Rightarrow> None
      | Some r \<Rightarrow> (case data r of None \<Rightarrow> None | Some d \<Rightarrow> d_message d))"

text \<open>\<open>error?.response?.data?.errors\<close>\<close>

definition resp_data_errors :: "raw_error \<Rightarrow> (string \<times> string) list option" where
  "resp_data_errors error =
     (case response (props error) of None \<Rightarrow> None
      | Some r \<Rightarrow> (case data r of None \<Rightarrow> None | Some d \<Rightarrow> d_errors d))"

subsection \<open>Classification\<close>

definition getErrorCategory :: "raw_error \<Rightarrow> ErrorCategory" where
  "getErrorCategory error =
     (let status = resp_status error; code = code (props error) in
      if status = Some 401 then C_auth
      else if status = Some 403 then C_permission
      else if status = Some 422 \<or> resp_data_errors error \<noteq> None then C_validation
      else if status = Some 404 then C_notfound
      else if status = Some 409 then C_conflict
      else if (case status of None \<Rightarrow> False | Some n \<Rightarrow> n \<noteq> 0 \<and> n \<ge> 500) then C_server
      else if code = Some ''ERR_NETWORK'' \<or> message_includes error ''Network Error''
              \<or> response (props error) = None then C_network
      else if code = Some ''ECONNABORTED'' \<or> message_includes error ''timeout'' then C_timeout
      else if truthy (resp_data_message error) then C_business
      else C_unknown)"

definition getErrorType :: "raw_error \<Rightarrow> ErrorType" where
  "getErrorType error =
     (let category = getErrorCategory error;
          hasBackendMessage = truthy (resp_data_message error) in
      if category = C_network \<or> category = C_timeout \<or> category = C_server then T_retryable
      else if category \<in> set [C_auth, C_permission, C_validation, C_notfound, C_conflict]
        then T_non_retryable
      else if hasBackendMessage then T_business
      else T_system)"

definition isRetryableError :: "raw_error \<Rightarrow> bool" where
  "isRetryableError error = (getErrorType error = T_retryable)"

definition isBusinessError :: "raw_error \<Rightarrow> bool" where
  "isBusinessError error = truthy (resp_data_message error)"

definition isAuthError :: "raw_error \<Rightarrow> bool" where
  "isAuthError error = (resp_status error = Some 401)"

definition isForbiddenError :: "raw_error \<Rightarrow> bool" where
  "isForbiddenError error = (resp_status error = Some 403)"

definition isValidationError :: "raw_error \<Rightarrow> bool" where
  "isValidationError error = (resp_status error = Some 422 \<or> resp_data_errors error \<noteq> None)"

definition isNetworkError :: "raw_error \<Rightarrow> bool" where
  "isNetworkError error =
     (code (props error) = Some ''ERR_NETWORK'' \<or> message_includes error ''Network Error''
      \<or> response (props error) = None)"

definition isTimeoutError :: "raw_error \<Rightarrow> bool" where
  "isTimeoutError error =
     (code (props error) = Some ''ECONNABORTED'' \<or> message_includes error ''timeout'')"

subsection \<open>Custom error classes and \<open>parseApiError\<close>\<close>

definition new_AppError :: "string \<Rightarrow> int \<Rightarrow> bool \<Rightarrow> AppError" where
  "new_AppError m sc op =
     \<lparr>cls = AppErrorC, app_message = m, statusCode = sc, isOperational = op\<rparr>"

definition new_BadRequestError :: "string \<Rightarrow> AppError" where
  "new_BadRequestError m = (new_AppError m 400 True)\<lparr>cls := BadRequestErrorC\<rparr>"

definition new_UnauthorizedError :: "string \<Rightarrow> AppError" where
  "new_UnauthorizedError m = (new_AppError m 401 True)\<lparr>cls := UnauthorizedErrorC\<rparr>"

definition new_ForbiddenError :: "string \<Rightarrow> AppError" where
  "new_ForbiddenError m = (new_AppError m 403 True)\<lparr>cls := ForbiddenErrorC\<rparr>"

definition new_NotFoundError :: "string \<Rightarrow> AppError" where
  "new_NotFoundError m = (new_AppError m 404 True)\<lparr>cls := NotFoundErrorC\<rparr>"

definition new_ConflictError :: "string \<Rightarrow> AppError" where
  "new_ConflictError m = (new_AppError m 409 True)\<lparr>cls := ConflictErrorC\<rparr>"

definition new_ValidationError :: "string \<Rightarrow> AppError" where
  "new_ValidationError m = (new_AppError m 422 True)\<lparr>cls := ValidationErrorC\<rparr>"

definition new_InternalServerError :: "string \<Rightarrow> AppError" where
  "new_InternalServerError m = (new_AppError m 500 True)\<lparr>cls := InternalServerErrorC\<rparr>"

text \<open>
  \<open>parseApiError\<close> reads \<open>error.response\<close> without optional chaining, so on
  \<open>null\<close>/\<open>undefined\<close> it throws a \<open>TypeError\<close> (\<open>Inl\<close>).
\<close>

definition parseApiError :: "raw_error \<Rightarrow> js_exception + AppError" where
  "parseApiError error =
     (case error of
        Thrown_AppError a \<Rightarrow> Inr a
      | Nullish \<Rightarrow> Inl TypeError
      | Raw f \<Rightarrow>
          (case response f of
             Some r \<Rightarrow>
               (let dmessage = (case data r of None \<Rightarrow> None | Some d \<Rightarrow> d_message d);
                    derror = (case data r of None \<Rightarrow> None | Some d \<Rightarrow> d_error d);
                    msg = (if truthy dmessage then the dmessage
                           else if truthy derror then the derror
                           else ''An error occurred'')
                in Inr (if status r = Some 400 then new_BadRequestError msg
                        else if status r = Some 401 then new_UnauthorizedError msg
                        else if status r = Some 403 then new_ForbiddenError msg
                        else if status r = Some 404 then new_NotFoundError msg
                        else if status r = Some 409 then new_ConflictError msg
                        else if status r = Some 422 then new_ValidationError msg
                        else new_InternalServerError msg))
           | None \<Rightarrow>
               if request f then
                 Inr (new_AppError ''Network Error - No response from server'' 0 False)
               else
                 Inr (new_AppError
                        (if truthy (message f) then the (message f)
                         else ''An unexpected error occurred'') 500 False)))"

text \<open>\<open>parseApiError(parseApiError(e))\<close>: the result of the first call is the argument of the
  second; an exception of the first call propagates.\<close>

definition parseApiError_twice :: "raw_error \<Rightarrow> js_exception + AppError" where
  "parseApiError_twice error =
     (case parseApiError error of
        Inl x \<Rightarrow> Inl x
      | Inr a \<Rightarrow> parseApiError (Thrown_AppError a))"


section \<open>Authentication utilities (lib/utils/auth.ts)\<close>

subsection \<open>Numbers and their text\<close>

text \<open>
  Strings are lists of code units below 256. A JavaScript number that the module handles
  is an integer or \<open>NaN\<close>. The model computes exactly on the safe integers (magnitude at
  most \<open>2^53 - 1\<close>): \<open>Num n\<close>. Where the exact result \<open>n\<close> of a computation is beyond them,
  JavaScript has the double nearest to \<open>n\<close> (an infinity when there is none); the model
  does not compute it and writes \<open>Beyond n\<close>. Its magnitude is at least \<open>2^53\<close> and
  it has the sign of \<open>n\<close>.
\<close>

datatype js_number = NaN | Num int | Beyond int

definition MAX_SAFE_INTEGER :: int where
  "MAX_SAFE_INTEGER = 2 ^ 53 - 1"

text \<open>The number JavaScript has for the exact integer result \<open>n\<close>.\<close>

definition number_of :: "int \<Rightarrow> js_number" where
  "number_of n = (if \<bar>n\<bar> \<le> MAX_SAFE_INTEGER then Num n else Beyond n)"

text \<open>Truthiness of a number: not \<open>NaN\<close> and not \<open>0\<close>.\<close>

fun truthy_number :: "js_number \<Rightarrow> bool" where
  "truthy_number NaN = False"
| "truthy_number (Num n) = (n \<noteq> 0)"
| "truthy_number (Beyond n) = True"

text \<open>The decimal digits of a natural number, and their value.\<close>

definition digit_char :: "nat \<Rightarrow> char" where
  "digit_char d = char_of (48 + d)"

function digits :: "nat \<Rightarrow> string" where
  "digits n = (if n < 10 then [digit_char n] else digits (n div 10) @ [digit_char (n mod 10)])"
  by pat_completeness auto
termination
  by (relation "measure id") auto

declare digits.simps [simp del]

definition is_digit :: "char \<Rightarrow> bool" where
  "is_digit c = (48 \<le> (of_char c :: nat) \<and> (of_char c :: nat) \<le> 57)"

definition digits_value :: "string \<Rightarrow> nat" where
  "digits_value ds = foldl (\<lambda>v c. 10 * v + (of_char c - 48)) 0 ds"

text \<open>\<open>Number.prototype.toString()\<close> of a safe integer.\<close>

definition decimal :: "int \<Rightarrow> string" where
  "decimal n = (if n < 0 then CHR ''-'' # digits (nat (- n)) else digits (nat n))"

text \<open>
  The white space that \<open>parseInt\<close> skips, among the code units below 256: tab, line feed,
  vertical tab, form feed, carriage return, space, no-break space.
\<close>

definition is_space :: "char \<Rightarrow> bool" where
  "is_space c = ((of_char c :: nat) \<in> {9, 10, 11, 12, 13, 32, 160})"

text \<open>
  \<open>parseInt(s, 10)\<close>: skip leading white space, take a sign, then the longest run of decimal
  digits; \<open>NaN\<close> without a digit. Anything after the digits is ignored.
\<close>

definition parseInt :: "string \<Rightarrow> js_number" where
  "parseInt s =
     (let S = dropWhile is_space s;
          negative = (S \<noteq> [] \<and> hd S = CHR ''-'');
          S' = (if S \<noteq> [] \<and> (hd S = CHR ''+'' \<or> hd S = CHR ''-'') then tl S else S);
          Z = takeWhile is_digit S'
      in if Z = [] then NaN
         else number_of ((if negative then - 1 else 1) * int (digits_value Z)))"

text \<open>
  \<open>Date.now()\<close> is a time value: an integer of magnitude at most \<open>8.64 * 10^15\<close>. For
  such a \<open>now\<close> and \<open>0 \<le> t \<le> 300000\<close>, \<open>now >= x - t\<close> on doubles is what \<open>time_reached\<close>
  says: on a safe integer \<open>x\<close> the comparison of the integers (a difference below \<open>-2^53\<close>
  is rounded, and stays below every time value); a number of magnitude \<open>2^53\<close> or more is
  above every time value plus \<open>t\<close> when positive and below when negative.
\<close>

definition time_value :: "int \<Rightarrow> bool" where
  "time_value t = (\<bar>t\<bar> \<le> 8640000000000000)"

fun time_reached :: "int \<Rightarrow> js_number \<Rightarrow> int \<Rightarrow> bool" where
  "time_reached now NaN t = False"
| "time_reached now (Num x) t = (now \<ge> x - t)"
| "time_reached now (Beyond x) t = (x < 0)"

subsection \<open>Storage and tokens\<close>

text \<open>
  The four \<open>localStorage\<close> items the module uses, by key, each the stored string;
  \<open>user_data\<close> holds the JSON text of the user.
\<close>

record storage =
  auth_token :: "string option"
  refresh_token :: "string option"
  token_expiry :: "string option"
  user_data :: "string option"

text \<open>
  The body of a login or refresh response. \<open>user\<close> is the JSON text of \<open>data.user\<close>
  when that is an object. \<open>refreshToken\<close> and \<open>user\<close> may be missing at run time
  (the code tests both).
\<close>

record AuthResponseDto =
  accessToken :: string
  refreshToken :: "string option"
  user :: "string option"

text \<open>The decoded payload of a JWT: its \<open>exp\<close> claim, a whole number of seconds, or
  \<open>None\<close> when the payload has no \<open>exp\<close>. (A payload whose \<open>exp\<close> is anything else, a
  fraction or a string, is outside the model.)\<close>

record jwt_payload =
  exp :: "int option"

text \<open>
  The environment: whether \<open>window\<close> is defined (browser) or not (server-side rendering);
  \<open>parseJwt\<close>, which is taken as given: base64 and JSON decoding of the token's second
  segment, \<open>None\<close> for \<open>null\<close> (any decoding failure is caught and gives \<open>null\<close>); and
  \<open>big_text\<close>, the text \<open>toString()\<close> gives for the number \<open>Beyond n\<close> (rounded digits, in
  exponent notation from \<open>10^21\<close> on), which is taken as given too.
\<close>

record env =
  has_window :: bool
  parseJwt :: "string \<Rightarrow> jwt_payload option"
  big_text :: "int \<Rightarrow> string"

text \<open>\<open>Number.prototype.toString()\<close> of a number that is not \<open>NaN\<close>.\<close>

fun number_text :: "env \<Rightarrow> js_number \<Rightarrow> string" where
  "number_text env (Num n) = decimal n"
| "number_text env (Beyond n) = big_text env n"
| "number_text env NaN = ''NaN''"

definition REFRESH_THRESHOLD :: int where
  "REFRESH_THRESHOLD = 5 * 60 * 1000"

definition getTokenExpiryFromJwt :: "env \<Rightarrow> string \<Rightarrow> js_number option" where
  "getTokenExpiryFromJwt env token =
     (case parseJwt env token of
        None \<Rightarrow> None
      | Some payload \<Rightarrow>
          (case exp payload of
             None \<Rightarrow> None
           | Some e \<Rightarrow> if e = 0 then None else Some (number_of (e * 1000))))"

definition storeAuthData :: "env \<Rightarrow> AuthResponseDto \<Rightarrow> storage \<Rightarrow> storage" where
  "storeAuthData env d st =
     (if \<not> has_window env then st
      else
        let st1 = st\<lparr>auth_token := Some (accessToken d)\<rparr>;
            st2 = (if truthy (refreshToken d) then st1\<lparr>refresh_token := refreshToken d\<rparr>
                   else st1);
            expiryTime = getTokenExpiryFromJwt env (accessToken d);
            st3 = (case expiryTime of
                     None \<Rightarrow> st2
                   | Some e \<Rightarrow>
                       if truthy_number e then st2\<lparr>token_expiry := Some (number_text env e)\<rparr>
                       else st2);
            st4 = (case user d of None \<Rightarrow> st3 | Some u \<Rightarrow> st3\<lparr>user_data := Some u\<rparr>)
        in st4)"

definition getAccessToken :: "env \<Rightarrow> storage \<Rightarrow> string option" where
  "getAccessToken env st = (if \<not> has_window env then None else auth_token st)"

definition getRefreshToken :: "env \<Rightarrow> storage \<Rightarrow> string option" where
  "getRefreshToken env st = (if \<not> has_window env then None else refresh_token st)"

definition getTokenExpiry :: "env \<Rightarrow> storage \<Rightarrow> js_number option" where
  "getTokenExpiry env st =
     (if \<not> has_window env then None
      else case token_expiry st of
        None \<Rightarrow> None
      | Some expiry \<Rightarrow> if expiry \<noteq> [] then Some (parseInt expiry) else None)"

text \<open>\<open>now\<close> is \<open>Date.now()\<close>. \<open>!expiry\<close> holds for \<open>null\<close>, \<open>NaN\<close> and \<open>0\<close>.\<close>

definition isTokenExpiringSoon :: "env \<Rightarrow> int \<Rightarrow> storage \<Rightarrow> bool" where
  "isTokenExpiringSoon env now st =
     (case getTokenExpiry env st of
        None \<Rightarrow> False
      | Some expiry \<Rightarrow>
          if \<not> truthy_number expiry then False
          else time_reached now expiry REFRESH_THRESHOLD)"

definition isTokenExpired :: "env \<Rightarrow> int \<Rightarrow> storage \<Rightarrow> bool" where
  "isTokenExpired env now st =
     (case getTokenExpiry env st of
        None \<Rightarrow> False
      | Some expiry \<Rightarrow>
          if \<not> truthy_number expiry then False
          else time_reached now expiry 0)"

definition isAuthenticated :: "env \<Rightarrow> int \<Rightarrow> storage \<Rightarrow> bool" where
  "isAuthenticated env now st =
     (let token = getAccessToken env st in
      if \<not> truthy token then False
      else if isTokenExpired env now st then False
      else True)"

definition clearAuthData :: "env \<Rightarrow> storage \<Rightarrow> storage" where
  "clearAuthData env st =
     (if \<not> has_window env then st
      else \<lparr>auth_token = None, refresh_token = None, token_expiry = None, user_data = None\<rparr>)"

text \<open>
  The value assigned to \<open>window.location.href\<close>: \<open>LoginUrl None\<close> is \<open>/auth/login\<close>,
  \<open>LoginUrl (Some r)\<close> is \<open>/auth/login?returnUrl=\<close> followed by
  \<open>encodeURIComponent(r)\<close>.
\<close>

datatype login_url = LoginUrl "string option"

text \<open>The part of the browser the module touches; \<open>location_href\<close> lists the assignments
  to \<open>window.location.href\<close>, oldest first.\<close>

record browser =
  ls :: storage
  pathname :: string
  location_href :: "login_url list"

definition redirectToLogin :: "env \<Rightarrow> string option \<Rightarrow> 'a browser_scheme \<Rightarrow> 'a browser_scheme" where
  "redirectToLogin env returnUrl b =
     (if \<not> has_window env then b
      else b\<lparr>ls := clearAuthData env (ls b),
             location_href := location_href b
               @ [LoginUrl (if truthy returnUrl then returnUrl else None)]\<rparr>)"


section \<open>HTTP client (lib/http.ts)\<close>

subsection \<open>State\<close>

text \<open>
  The interceptors run on one event loop: each runs without interruption up to its next
  \<open>await\<close> or to the promise it returns, and other requests' code runs in between. The
  model is a transition function over the module's state, one event per uninterrupted
  run. The fields of a request config that the interceptors read or write are the
  \<open>Authorization\<close> header and \<open>_retry\<close>.
\<close>

record request_config =
  Authorization :: "string option"
  retry :: bool

text \<open>The two closures passed to \<open>subscribeTokenRefresh\<close>, by the request they belong to:
  the one of the request interceptor and the one of the response interceptor.\<close>

datatype subscriber = Req_waiter nat | Resp_waiter nat

text \<open>How \<open>axios.post\<close> to the refresh endpoint ends: it throws, or gives \<open>response.data\<close>
  (\<open>None\<close> when falsy).\<close>

datatype refresh_outcome = Post_fails | Post_ok "AuthResponseDto option"

text \<open>
  Where a request stands. \<open>Issued\<close>: \<open>axiosInstance(config)\<close> was called and the request
  interceptor has not run yet. \<open>Req_refreshing\<close>/\<open>Resp_refreshing\<close>: the request/response
  interceptor is at \<open>await refreshToken()\<close>; the flag says whether \<open>refreshToken\<close> posted to
  the refresh endpoint (it returns \<open>null\<close> at once without a stored refresh token).
  \<open>Req_waiting\<close>/\<open>Resp_waiting\<close>: the interceptor returned the promise that only its
  subscriber resolves. \<open>Sent\<close>: the config is with the transport. \<open>Resolved\<close>, \<open>Rejected\<close>:
  the caller's promise is settled.
\<close>

datatype pc =
  Issued | Req_refreshing bool | Req_waiting | Sent | Resp_refreshing bool raw_error
  | Resp_waiting | Resolved | Rejected "js_exception + AppError"

text \<open>\<open>sent\<close> lists the configs handed to the transport for this request, oldest first.\<close>

record task =
  config :: request_config
  pc :: pc
  sent :: "request_config list"

text \<open>\<open>refresh_posts\<close> lists the refresh tokens posted to the refresh endpoint, oldest
  first.\<close>

record client = browser +
  isRefreshing :: bool
  refreshSubscribers :: "subscriber list"
  refresh_posts :: "string list"
  tasks :: "nat \<Rightarrow> task"

text \<open>
  The events. \<open>Run_request i now\<close>: the request interceptor of request \<open>i\<close> runs, at time
  \<open>Date.now() = now\<close>. \<open>Refresh_settles i outcome\<close>: the \<open>refreshToken()\<close> that request \<open>i\<close>
  awaits settles; \<open>outcome\<close> is how its post ended, and is not read when it made none.
  \<open>Transport_answers i r\<close>: the transport answers request \<open>i\<close>, with a response of a
  status that resolves (\<open>None\<close>) or with an error.
\<close>

datatype event =
  Run_request nat int
  | Refresh_settles nat refresh_outcome
  | Transport_answers nat "raw_error option"

subsection \<open>Operations\<close>

definition Bearer :: "string \<Rightarrow> string" where
  "Bearer token = ''Bearer '' @ token"

definition upd_task :: "nat \<Rightarrow> (task \<Rightarrow> task) \<Rightarrow> client \<Rightarrow> client" where
  "upd_task i f s = s\<lparr>tasks := (tasks s)(i := f (tasks s i))\<rparr>"

text \<open>The interceptor returns (or resolves with) the config: it goes to the transport.\<close>

definition dispatch :: "nat \<Rightarrow> client \<Rightarrow> client" where
  "dispatch i s = upd_task i (\<lambda>t. t\<lparr>pc := Sent, sent := sent t @ [config t]\<rparr>) s"

definition set_Authorization :: "nat \<Rightarrow> string \<Rightarrow> client \<Rightarrow> client" where
  "set_Authorization i v s =
     upd_task i (\<lambda>t. t\<lparr>config := (config t)\<lparr>Authorization := Some v\<rparr>\<rparr>) s"

definition set_pc :: "nat \<Rightarrow> pc \<Rightarrow> client \<Rightarrow> client" where
  "set_pc i p s = upd_task i (\<lambda>t. t\<lparr>pc := p\<rparr>) s"

definition subscribeTokenRefresh :: "subscriber \<Rightarrow> client \<Rightarrow> client" where
  "subscribeTokenRefresh callback s =
     s\<lparr>refreshSubscribers := refreshSubscribers s @ [callback]\<rparr>"

text \<open>Calling a subscriber with the new token. The request interceptor's closure sets the
  header and resolves with the config; the response interceptor's sets the header and
  calls \<open>axiosInstance(originalRequest)\<close>.\<close>

fun run_callback :: "string \<Rightarrow> subscriber \<Rightarrow> client \<Rightarrow> client" where
  "run_callback token (Req_waiter i) s = dispatch i (set_Authorization i (Bearer token) s)"
| "run_callback token (Resp_waiter i) s = set_pc i Issued (set_Authorization i (Bearer token) s)"

definition onTokenRefreshed :: "string \<Rightarrow> client \<Rightarrow> client" where
  "onTokenRefreshed token s =
     (fold (run_callback token) (refreshSubscribers s) s)\<lparr>refreshSubscribers := []\<rparr>"

text \<open>\<open>refreshToken\<close> up to its \<open>await axios.post(...)\<close>: whether it posted.\<close>

definition refreshToken_begin :: "env \<Rightarrow> client \<Rightarrow> bool \<times> client" where
  "refreshToken_begin env s =
     (let refreshTokenValue = getRefreshToken env (ls s) in
      if \<not> truthy refreshTokenValue then (False, s)
      else (True, s\<lparr>refresh_posts := refresh_posts s @ [the refreshTokenValue]\<rparr>))"

text \<open>\<open>refreshToken\<close> from there on: the new access token, or \<open>null\<close>.\<close>

definition refreshToken_end ::
  "env \<Rightarrow> bool \<Rightarrow> refresh_outcome \<Rightarrow> client \<Rightarrow> string option \<times> client" where
  "refreshToken_end env posted outcome s =
     (if \<not> posted then (None, s)
      else case outcome of
        Post_fails \<Rightarrow> (None, s)
      | Post_ok None \<Rightarrow> (None, s)
      | Post_ok (Some d) \<Rightarrow>
          if accessToken d \<noteq> [] then (Some (accessToken d), s\<lparr>ls := storeAuthData env d (ls s)\<rparr>)
          else (None, s))"

text \<open>The argument of \<open>redirectToLogin\<close> in both interceptors.\<close>

definition current_path :: "env \<Rightarrow> client \<Rightarrow> string option" where
  "current_path env s = (if has_window env then Some (pathname s) else None)"

text \<open>The request interceptor, up to its \<open>await\<close> or its \<open>return\<close>.\<close>

definition request_interceptor :: "env \<Rightarrow> int \<Rightarrow> nat \<Rightarrow> client \<Rightarrow> client" where
  "request_interceptor env now i s =
     (let token = getAccessToken env (ls s) in
      if truthy token then
        if isTokenExpiringSoon env now (ls s) \<and> \<not> isRefreshing s then
          let (posted, s1) = refreshToken_begin env (s\<lparr>isRefreshing := True\<rparr>)
          in set_pc i (Req_refreshing posted) s1
        else if isRefreshing s then
          set_pc i Req_waiting (subscribeTokenRefresh (Req_waiter i) s)
        else
          dispatch i (set_Authorization i (Bearer (the token)) s)
      else dispatch i s)"

text \<open>The request interceptor after \<open>await refreshToken()\<close>.\<close>

definition request_interceptor_resume ::
  "env \<Rightarrow> bool \<Rightarrow> refresh_outcome \<Rightarrow> nat \<Rightarrow> client \<Rightarrow> client" where
  "request_interceptor_resume env posted outcome i s =
     (let (newToken, s1) = refreshToken_end env posted outcome s;
          s2 = (case newToken of
                  Some t \<Rightarrow> onTokenRefreshed t (set_Authorization i (Bearer t) s1)
                | None \<Rightarrow> redirectToLogin env (current_path env s1) s1);
          s3 = s2\<lparr>isRefreshing := False\<rparr>
      in dispatch i s3)"

text \<open>
  The response interceptor's error handler, up to its \<open>await\<close> or its \<open>return\<close>.
  \<open>error.config\<close> is the config of the request that failed (Axios keeps \<open>_retry\<close> when
  the config is passed to \<open>axiosInstance\<close> again). Reading \<open>error.config\<close> of
  \<open>null\<close>/\<open>undefined\<close> throws.
\<close>

definition response_error_handler :: "env \<Rightarrow> raw_error \<Rightarrow> nat \<Rightarrow> client \<Rightarrow> client" where
  "response_error_handler env error i s =
     (if error = Nullish then set_pc i (Rejected (Inl TypeError)) s
      else if resp_status error = Some 401 \<and> \<not> retry (config (tasks s i)) then
        let s1 = upd_task i (\<lambda>t. t\<lparr>config := (config t)\<lparr>retry := True\<rparr>\<rparr>) s in
        if isRefreshing s1 then
          set_pc i Resp_waiting (subscribeTokenRefresh (Resp_waiter i) s1)
        else
          let (posted, s2) = refreshToken_begin env (s1\<lparr>isRefreshing := True\<rparr>)
          in set_pc i (Resp_refreshing posted error) s2
      else set_pc i (Rejected (parseApiError error)) s)"

text \<open>The error handler after \<open>await refreshToken()\<close>.\<close>

definition response_error_handler_resume ::
  "env \<Rightarrow> bool \<Rightarrow> raw_error \<Rightarrow> refresh_outcome \<Rightarrow> nat \<Rightarrow> client \<Rightarrow> client" where
  "response_error_handler_resume env posted error outcome i s =
     (let (newToken, s1) = refreshToken_end env posted outcome s in
      case newToken of
        Some t \<Rightarrow>
          let s2 = onTokenRefreshed t (set_Authorization i (Bearer t) s1);
              s3 = set_pc i Issued s2
          in s3\<lparr>isRefreshing := False\<rparr>
      | None \<Rightarrow>
          let s2 = redirectToLogin env (current_path env s1) s1;
              s3 = s2\<lparr>isRefreshing := False\<rparr>
          in set_pc i (Rejected (parseApiError error)) s3)"

subsection \<open>The event loop\<close>

text \<open>An event that does not apply to the request's current position changes nothing.\<close>

fun step :: "env \<Rightarrow> event \<Rightarrow> client \<Rightarrow> client" where
  "step env (Run_request i now) s =
     (if pc (tasks s i) = Issued then request_interceptor env now i s else s)"
| "step env (Refresh_settles i outcome) s =
     (case pc (tasks s i) of
        Req_refreshing posted \<Rightarrow> request_interceptor_resume env posted outcome i s
      | Resp_refreshing posted error \<Rightarrow> response_error_handler_resume env posted error outcome i s
      | _ \<Rightarrow> s)"
| "step env (Transport_answers i r) s =
     (if pc (tasks s i) = Sent then
        (case r of
           None \<Rightarrow> set_pc i Resolved s
         | Some error \<Rightarrow> response_error_handler env error i s)
      else s)"

definition run :: "env \<Rightarrow> event list \<Rightarrow> client \<Rightarrow> client" where
  "run env evs s = fold (step env) evs s"

text \<open>A new request: no header set, \<open>_retry\<close> unset, nothing sent.\<close>

definition new_task :: task where
  "new_task = \<lparr>config = \<lparr>Authorization = None, retry = False\<rparr>, pc = Issued, sent = []\<rparr>"

text \<open>The module just loaded, over a given storage and path.\<close>

definition init :: "storage \<Rightarrow> string \<Rightarrow> client" where
  "init st path =
     \<lparr>ls = st, pathname = path, location_href = [],
      isRefreshing = False, refreshSubscribers = [], refresh_posts = [],
      tasks = (\<lambda>_. new_task)\<rparr>"

text \<open>The request is at \<open>await refreshToken()\<close>; and with a post to the refresh endpoint
  outstanding.\<close>

fun refreshing :: "pc \<Rightarrow> bool" where
  "refreshing (Req_refreshing _) = True"
| "refreshing (Resp_refreshing _ _) = True"
| "refreshing _ = False"

fun exchange_in_flight :: "pc \<Rightarrow> bool" where
  "exchange_in_flight (Req_refreshing posted) = posted"
| "exchange_in_flight (Resp_refreshing posted _) = posted"
| "exchange_in_flight _ = False"


section \<open>The specification's tables\<close>

text \<open>
  The priority order of classification as data: the first entry whose predicate holds
  gives the category, \<open>unknown\<close> when none does. The predicates are the module's exported
  ones where it has one, and the status tests otherwise.
\<close>

fun first_match :: "(('a \<Rightarrow> bool) \<times> 'b) list \<Rightarrow> 'b \<Rightarrow> 'a \<Rightarrow> 'b" where
  "first_match [] d x = d"
| "first_match ((p, c) # rest) d x = (if p x then c else first_match rest d x)"

definition status_is :: "int \<Rightarrow> raw_error \<Rightarrow> bool" where
  "status_is n error = (resp_status error = Some n)"

definition status_5xx :: "raw_error \<Rightarrow> bool" where
  "status_5xx error = (case resp_status error of None \<Rightarrow> False | Some n \<Rightarrow> n \<ge> 500)"

definition priority_table :: "((raw_error \<Rightarrow> bool) \<times> ErrorCategory) list" where
  "priority_table =
     [(isAuthError, C_auth),
      (isForbiddenError, C_permission),
      (isValidationError, C_validation),
      (status_is 404, C_notfound),
      (status_is 409, C_conflict),
      (status_5xx, C_server),
      (isNetworkError, C_network),
      (isTimeoutError, C_timeout),
      (isBusinessError, C_business)]"

text \<open>The type as the specification derives it from the category and the presence of a
  server message.\<close>

fun derive_type :: "ErrorCategory \<Rightarrow> bool \<Rightarrow> ErrorType" where
  "derive_type C_network _ = T_retryable"
| "derive_type C_timeout _ = T_retryable"
| "derive_type C_server _ = T_retryable"
| "derive_type C_auth _ = T_non_retryable"
| "derive_type C_permission _ = T_non_retryable"
| "derive_type C_validation _ = T_non_retryable"
| "derive_type C_notfound _ = T_non_retryable"
| "derive_type C_conflict _ = T_non_retryable"
| "derive_type _ hasMessage = (if hasMessage then T_business else T_system)"

section \<open>Sample values\<close>

text \<open>What Axios rejects with when its timeout elapses: no response, the request object,
  code \<open>ECONNABORTED\<close>.\<close>

definition timeout_error :: raw_error where
  "timeout_error =
     Raw \<lparr>response = None, request = True, code = Some ''ECONNABORTED'',
          message = Some ''timeout of 30000ms exceeded''\<rparr>"

text \<open>A 422 response whose body has a message of the server.\<close>

definition error_422 :: raw_error where
  "error_422 =
     Raw \<lparr>response = Some \<lparr>status = Some 422,
                             data = Some \<lparr>d_message = Some ''Email already used'',
                                          d_error = None, d_errors = None\<rparr>\<rparr>,
          request = True, code = Some ''ERR_BAD_REQUEST'',
          message = Some ''Request failed with status code 422''\<rparr>"

text \<open>A 401 response without a body.\<close>

definition error_401 :: raw_error where
  "error_401 =
     Raw \<lparr>response = Some \<lparr>status = Some 401, data = None\<rparr>,
          request = True, code = Some ''ERR_BAD_REQUEST'',
          message = Some ''Request failed with status code 401''\<rparr>"

text \<open>A token decoder for opaque tokens (none decodes), and one that reads the token
  \<open>new\<close> as expiring at second 2000.\<close>

definition opaque_jwt :: "string \<Rightarrow> jwt_payload option" where
  "opaque_jwt token = None"

definition sample_jwt :: "string \<Rightarrow> jwt_payload option" where
  "sample_jwt token = (if token = ''new'' then Some \<lparr>exp = Some 2000\<rparr> else None)"

text \<open>A stand-in for the text of numbers beyond the safe integers.\<close>

definition exponent_text :: "int \<Rightarrow> string" where
  "exponent_text n = ''1e+21''"

definition browser_env :: env where
  "browser_env = \<lparr>has_window = True, parseJwt = opaque_jwt, big_text = exponent_text\<rparr>"

definition sample_env :: env where
  "sample_env = \<lparr>has_window = True, parseJwt = sample_jwt, big_text = exponent_text\<rparr>"

text \<open>A stored credential set that expires at millisecond 1000000, and the same without
  a refresh token.\<close>

definition old_storage :: storage where
  "old_storage =
     \<lparr>auth_token = Some ''old'', refresh_token = Some ''r0'', token_expiry = Some ''1000000'',
      user_data = Some ''u0''\<rparr>"

definition no_refresh_storage :: storage where
  "no_refresh_storage = old_storage\<lparr>refresh_token := None\<rparr>"

text \<open>A credential set without expiry; one whose stored expiry is the text \<open>0\<close>; and one
  whose stored expiry is beyond the safe integers.\<close>

definition no_expiry_storage :: storage where
  "no_expiry_storage = old_storage\<lparr>token_expiry := None\<rparr>"

definition zero_expiry_storage :: storage where
  "zero_expiry_storage = old_storage\<lparr>token_expiry := Some ''0''\<rparr>"

definition far_expiry_storage :: storage where
  "far_expiry_storage = old_storage\<lparr>token_expiry := Some ''99999999999999999999''\<rparr>"


definition full_response :: AuthResponseDto where
  "full_response = \<lparr>accessToken = ''new'', refreshToken = Some ''r1'', user = Some ''u1''\<rparr>"


text \<open>Three requests issued together at time 700000 with the refresh succeeding, and two
  with the refresh failing.\<close>

definition same_time :: "nat \<Rightarrow> int" where
  "same_time i = 700000"

definition three_sends :: "event list" where
  "three_sends =
     Run_request 0 700000 # map (\<lambda>i. Run_request i (same_time i)) [1, 2]
       @ [Refresh_settles 0 (Post_ok (Some full_response))]"

definition two_sends_failing :: "event list" where
  "two_sends_failing =
     [Run_request 0 700000, Run_request 1 700000, Refresh_settles 0 Post_fails]"

text \<open>One request with a token far from expiry: it is answered 401, the refresh succeeds,
  and the request is issued again.\<close>

definition retry_schedule :: "event list" where
  "retry_schedule =
     [Run_request 0 0, Transport_answers 0 (Some error_401),
      Refresh_settles 0 (Post_ok (Some full_response)), Run_request 0 0]"

section \<open>Invariants\<close>

text \<open>
  At most one request is at \<open>await refreshToken()\<close>, and only while \<open>isRefreshing\<close> is
  set.
\<close>

definition single_flight :: "client \<Rightarrow> bool" where
  "single_flight s =
     (\<forall>i j. refreshing (pc (tasks s i)) \<longrightarrow>
        isRefreshing s \<and> (refreshing (pc (tasks s j)) \<longrightarrow> i = j))"

text \<open>The request a subscriber belongs to, and where that request stands while the
  subscriber is queued.\<close>

fun owner :: "subscriber \<Rightarrow> nat" where
  "owner (Req_waiter i) = i"
| "owner (Resp_waiter i) = i"

fun waiting_at :: "client \<Rightarrow> subscriber \<Rightarrow> bool" where
  "waiting_at s (Req_waiter i) = (pc (tasks s i) = Req_waiting)"
| "waiting_at s (Resp_waiter i) = (pc (tasks s i) = Resp_waiting)"

definition subscribers_ok :: "client \<Rightarrow> bool" where
  "subscribers_ok s =
     (distinct (refreshSubscribers s) \<and> list_all (waiting_at s) (refreshSubscribers s))"

text \<open>
  How many configs of a request have gone to the transport, by where the request stands:
  none before the first send, one more after the retry (\<open>_retry\<close> set).
\<close>

definition attempts_ok :: "task \<Rightarrow> bool" where
  "attempts_ok t =
     (let n = length (sent t); r = retry (config t) in
      case pc t of
        Issued \<Rightarrow> n = (if r then 1 else 0)
      | Req_refreshing _ \<Rightarrow> n = (if r then 1 else 0)
      | Req_waiting \<Rightarrow> n = (if r then 1 else 0)
      | Sent \<Rightarrow> n = (if r then 2 else 1)
      | Resolved \<Rightarrow> n = (if r then 2 else 1)
      | Resp_refreshing _ _ \<Rightarrow> r \<and> n = 1
      | Resp_waiting \<Rightarrow> r \<and> n = 1
      | Rejected _ \<Rightarrow> 1 \<le> n \<and> n \<le> (if r then 2 else 1))"

definition retry_inv :: "client \<Rightarrow> bool" where
  "retry_inv s = (subscribers_ok s \<and> (\<forall>i. attempts_ok (tasks s i)))"

section \<open>Properties of the error handler\<close>

lemma error_422_facts:
  "resp_status error_422 = Some 422 \<and> truthy (resp_data_message error_422)"
  by (simp add: error_422_def resp_status_def resp_data_message_def)

text \<open>
  C4. \<open>getErrorCategory\<close> is the first match of the priority table auth (401), permission
  (403), validation (422 or an errors map), notfound (404), conflict (409), server
  (500 and above), network, timeout, business, with unknown as the fallback. In
  particular an error with status 422 and a message of the server is a validation error,
  not a business error.
\<close>

theorem classification_priority:
  "getErrorCategory e = first_match priority_table C_unknown e
   \<and> (resp_status e = Some 422 \<and> truthy (resp_data_message e)
        \<longrightarrow> getErrorCategory e = C_validation \<and> getErrorCategory e \<noteq> C_business)"
  by (simp add: getErrorCategory_def priority_table_def isAuthError_def isForbiddenError_def
      isValidationError_def status_is_def status_5xx_def isNetworkError_def isTimeoutError_def
      isBusinessError_def Let_def split: option.splits)

theorem classification_priority_witness:
  "resp_status error_422 = Some 422 \<and> truthy (resp_data_message error_422)
   \<and> getErrorCategory error_422 = C_validation"
  using classification_priority [of error_422] error_422_facts by blast

text \<open>
  C5. The type of an error is determined by its category and by whether the response has
  a message of the server: network, timeout and server errors are retryable; auth,
  permission, validation, notfound and conflict errors are non-retryable; any other
  error is a business error with a server message and a system error without.
\<close>

theorem type_from_category:
  "getErrorType e = derive_type (getErrorCategory e) (truthy (resp_data_message e))
   \<and> (getErrorCategory e \<in> {C_network, C_timeout, C_server} \<longrightarrow> getErrorType e = T_retryable)
   \<and> (getErrorCategory e \<in> {C_auth, C_permission, C_validation, C_notfound, C_conflict}
        \<longrightarrow> getErrorType e = T_non_retryable)
   \<and> (getErrorCategory e \<in> {C_business, C_unknown}
        \<longrightarrow> getErrorType e = (if truthy (resp_data_message e) then T_business else T_system))"
  by (cases "getErrorCategory e") (simp_all add: getErrorType_def Let_def)

theorem type_from_category_witness:
  "getErrorCategory timeout_error \<in> {C_network, C_timeout, C_server}
   \<and> getErrorType timeout_error = T_retryable
   \<and> getErrorCategory error_422 \<in> {C_auth, C_permission, C_validation, C_notfound, C_conflict}
   \<and> getErrorType error_422 = T_non_retryable"
  using type_from_category [of timeout_error] type_from_category [of error_422]
  by (simp add: getErrorCategory_def timeout_error_def error_422_def resp_status_def
      resp_data_errors_def Let_def)

text \<open>
  The timeout test comes after the network test, and the network test holds for every
  error without a response: the category timeout needs a response.
\<close>

lemma timeout_needs_response:
  "getErrorCategory e = C_timeout \<Longrightarrow> response (props e) \<noteq> None"
  by (auto simp add: getErrorCategory_def Let_def split: if_splits)

text \<open>
  C6. A failure for which the transport reports a timeout should get the category
  timeout. It does not: the error Axios rejects with on a timeout (code
  \<open>ECONNABORTED\<close>, no response), which \<open>isTimeoutError\<close> recognises, gets the category
  network.
\<close>

theorem timeout_classified_network:
  "isTimeoutError timeout_error \<and> getErrorCategory timeout_error = C_network
   \<and> getErrorCategory timeout_error \<noteq> C_timeout"
  by (simp add: isTimeoutError_def getErrorCategory_def timeout_error_def resp_status_def
      resp_data_errors_def Let_def)

text \<open>
  C9, as stated, fails on \<open>null\<close>/\<open>undefined\<close>: \<open>parseApiError\<close> returns no \<open>AppError\<close>
  there, it throws.
\<close>

theorem parseApiError_null_counterexample:
  "parseApiError Nullish = Inl TypeError"
  by (simp add: parseApiError_def)

text \<open>
  C9, amended. For every input other than \<open>null\<close>/\<open>undefined\<close>, \<open>parseApiError\<close> returns an
  \<open>AppError\<close>; an input that is an \<open>AppError\<close> is returned unchanged; and
  \<open>parseApiError(parseApiError(e))\<close> is \<open>parseApiError(e)\<close> for every \<open>e\<close> (both throw on
  \<open>null\<close>/\<open>undefined\<close>).
\<close>

theorem parseApiError_idempotent:
  "(e \<noteq> Nullish \<longrightarrow> (\<exists>a. parseApiError e = Inr a))
   \<and> parseApiError (Thrown_AppError a) = Inr a
   \<and> parseApiError_twice e = parseApiError e"
  by (cases e) (auto simp add: parseApiError_def parseApiError_twice_def Let_def split: option.splits)

theorem parseApiError_idempotent_witness:
  "error_422 \<noteq> Nullish
   \<and> parseApiError error_422 = Inr (new_ValidationError ''Email already used'')
   \<and> parseApiError_twice error_422 = Inr (new_ValidationError ''Email already used'')"
  using parseApiError_idempotent [of error_422]
  by (simp add: parseApiError_def error_422_def)

section \<open>Properties of numbers and their text\<close>

lemma is_digit_digit_char: "d < 10 \<Longrightarrow> is_digit (digit_char d)"
  by (simp add: is_digit_def digit_char_def)

lemma digit_char_value: "d < 10 \<Longrightarrow> (of_char (digit_char d) :: nat) - 48 = d"
  by (simp add: digit_char_def)

lemma digits_small: "n < 10 \<Longrightarrow> digits n = [digit_char n]"
  by (subst digits.simps) simp

lemma digits_large: "\<not> n < 10 \<Longrightarrow> digits n = digits (n div 10) @ [digit_char (n mod 10)]"
  by (subst digits.simps) simp

lemma digits_nonempty: "digits n \<noteq> []"
  by (subst digits.simps) simp

lemma digits_all_digits: "c \<in> set (digits n) \<Longrightarrow> is_digit c"
proof (induction n arbitrary: c rule: digits.induct)
  case (1 n)
  show ?case
  proof (cases "n < 10")
    case True
    then show ?thesis using "1.prems" by (simp add: digits_small is_digit_digit_char)
  next
    case False
    then have "c \<in> set (digits (n div 10)) \<or> c = digit_char (n mod 10)"
      using "1.prems" by (auto simp add: digits_large)
    then show ?thesis using "1.IH" [OF False] by (auto simp add: is_digit_digit_char)
  qed
qed

lemma digits_value_snoc: "digits_value (ds @ [c]) = 10 * digits_value ds + (of_char c - 48)"
  by (simp add: digits_value_def)

lemma digits_value_digits: "digits_value (digits n) = n"
proof (induction n rule: digits.induct)
  case (1 n)
  show ?case
  proof (cases "n < 10")
    case True
    then show ?thesis by (simp add: digits_small digits_value_def digit_char_value)
  next
    case False
    then have "digits_value (digits n) = 10 * digits_value (digits (n div 10)) + n mod 10"
      by (simp add: digits_large digits_value_snoc digit_char_value)
    then show ?thesis using "1.IH" [OF False] by simp
  qed
qed

lemma is_digit_not_space: "is_digit c \<Longrightarrow> \<not> is_space c"
  by (auto simp add: is_digit_def is_space_def)

lemma is_digit_not_sign: "is_digit c \<Longrightarrow> c \<noteq> CHR ''-'' \<and> c \<noteq> CHR ''+''"
  by (auto simp add: is_digit_def)

lemma takeWhile_digits: "takeWhile is_digit (digits n) = digits n"
  by (simp add: digits_all_digits)

lemma hd_digits: "is_digit (hd (digits n))"
  using digits_nonempty [of n] digits_all_digits [of "hd (digits n)" n] by simp

lemma dropWhile_space_digits: "dropWhile is_space (digits n) = digits n"
  using hd_digits [of n] is_digit_not_space by (cases "digits n") auto

lemma parseInt_digits: "parseInt (digits n) = number_of (int n)"
  using is_digit_not_sign [OF hd_digits [of n]]
  by (simp add: parseInt_def Let_def dropWhile_space_digits takeWhile_digits digits_nonempty
      digits_value_digits)

lemma parseInt_minus_digits: "parseInt (CHR ''-'' # digits n) = number_of (- int n)"
proof -
  have s: "\<not> is_space CHR ''-''" by (simp add: is_space_def)
  show ?thesis
    using s
    by (simp add: parseInt_def Let_def takeWhile_digits digits_nonempty digits_value_digits)
qed

text \<open>Reading back the text of an integer gives the number of that integer.\<close>

lemma parseInt_decimal: "parseInt (decimal n) = number_of n"
  by (simp add: decimal_def parseInt_digits parseInt_minus_digits)

lemma decimal_nonempty: "decimal n \<noteq> []"
  by (simp add: decimal_def digits_nonempty)


lemma number_of_Beyond: "number_of n = Beyond m \<longleftrightarrow> m = n \<and> \<not> \<bar>n\<bar> \<le> MAX_SAFE_INTEGER"
  by (auto simp add: number_of_def)

text \<open>A number that \<open>parseInt\<close> gives as beyond the safe integers is beyond them.\<close>

lemma parseInt_Beyond: "parseInt s = Beyond n \<Longrightarrow> \<not> \<bar>n\<bar> \<le> MAX_SAFE_INTEGER"
  by (auto simp add: parseInt_def Let_def number_of_Beyond split: if_splits)

text \<open>For a time value, \<open>time_reached\<close> on a number beyond the safe integers is the
  comparison of the integers.\<close>

lemma time_reached_Beyond:
  assumes "time_value now" and "\<not> \<bar>n\<bar> \<le> MAX_SAFE_INTEGER" and "0 \<le> t" and "t \<le> 300000"
  shows "time_reached now (Beyond n) t = (now \<ge> n - t)"
  using assms by (auto simp add: time_value_def MAX_SAFE_INTEGER_def)

lemma decimal_2000000: "decimal 2000000 = ''2000000''"
  by (simp add: decimal_def digits_large digits_small digit_char_def char_of_def bit_0)

section \<open>Properties of the authentication utilities\<close>

text \<open>
  C7, as stated, fails when the stored expiry is the text \<open>0\<close>: \<open>now \<ge> expiresAt -
  threshold\<close> holds and \<open>isTokenExpiringSoon\<close> is false.
\<close>

theorem stored_zero_counterexample:
  "getTokenExpiry browser_env zero_expiry_storage = Some (Num 0)
   \<and> (700000 :: int) \<ge> 0 - 5 * 60 * 1000
   \<and> \<not> isTokenExpiringSoon browser_env 700000 zero_expiry_storage"
  by (simp add: isTokenExpiringSoon_def getTokenExpiry_def browser_env_def
      zero_expiry_storage_def old_storage_def parseInt_def is_space_def is_digit_def
      digits_value_def number_of_def MAX_SAFE_INTEGER_def)

text \<open>
  C7, amended. \<open>isTokenExpiringSoon\<close> is true exactly when the stored expiry reads as a
  number \<open>expiresAt\<close> other than \<open>0\<close> and \<open>now \<ge> expiresAt - threshold\<close>, the threshold
  being 5 minutes (for a stored number beyond the safe integers: given that \<open>now\<close> is a
  time value); that is so in particular for the decimal text of a safe integer. It is
  false when no expiry is stored and when the stored text reads as \<open>0\<close> or as no number.
  With no expiry stored the request interceptor starts no refresh.
\<close>

theorem isTokenExpiringSoon_threshold:
  "(getTokenExpiry env st = Some (Num expiresAt) \<longrightarrow>
      isTokenExpiringSoon env now st
        = (expiresAt \<noteq> 0 \<and> now \<ge> expiresAt - 5 * 60 * 1000))
   \<and> (getTokenExpiry env st = Some (Beyond n) \<and> time_value now \<longrightarrow>
        isTokenExpiringSoon env now st = (now \<ge> n - 5 * 60 * 1000))
   \<and> (has_window env \<and> token_expiry st = Some (decimal e) \<and> \<bar>e\<bar> \<le> MAX_SAFE_INTEGER \<longrightarrow>
        isTokenExpiringSoon env now st = (e \<noteq> 0 \<and> now \<ge> e - 5 * 60 * 1000))
   \<and> (getTokenExpiry env st = None \<or> getTokenExpiry env st = Some NaN \<longrightarrow>
        \<not> isTokenExpiringSoon env now st)
   \<and> (getTokenExpiry env (ls s) = None \<longrightarrow>
        refresh_posts (request_interceptor env now i s) = refresh_posts s
        \<and> isRefreshing (request_interceptor env now i s) = isRefreshing s)"
proof -
  have a: "isTokenExpiringSoon env now st
        = (expiresAt \<noteq> 0 \<and> now \<ge> expiresAt - 5 * 60 * 1000)"
    if "getTokenExpiry env st = Some (Num expiresAt)"
    using that by (simp add: isTokenExpiringSoon_def REFRESH_THRESHOLD_def)
  have b: "isTokenExpiringSoon env now st = (now \<ge> n - 5 * 60 * 1000)"
    if g: "getTokenExpiry env st = Some (Beyond n)" and t: "time_value now"
  proof -
    have "\<exists>text. parseInt text = Beyond n"
      using g by (auto simp add: getTokenExpiry_def split: if_splits option.splits)
    then have "\<not> \<bar>n\<bar> \<le> MAX_SAFE_INTEGER" using parseInt_Beyond by blast
    then have "time_reached now (Beyond n) (5 * 60 * 1000) = (now \<ge> n - 5 * 60 * 1000)"
      using t by (intro time_reached_Beyond) simp_all
    then show ?thesis using g by (simp add: isTokenExpiringSoon_def REFRESH_THRESHOLD_def)
  qed
  have c: "isTokenExpiringSoon env now st = (e \<noteq> 0 \<and> now \<ge> e - 5 * 60 * 1000)"
    if "has_window env" "token_expiry st = Some (decimal e)" "\<bar>e\<bar> \<le> MAX_SAFE_INTEGER"
    using that
    by (simp add: isTokenExpiringSoon_def getTokenExpiry_def decimal_nonempty parseInt_decimal
        number_of_def REFRESH_THRESHOLD_def)
  have d: "\<not> isTokenExpiringSoon env now st"
    if "getTokenExpiry env st = None \<or> getTokenExpiry env st = Some NaN"
    using that by (auto simp add: isTokenExpiringSoon_def)
  have e: "refresh_posts (request_interceptor env now i s) = refresh_posts s
        \<and> isRefreshing (request_interceptor env now i s) = isRefreshing s"
    if "getTokenExpiry env (ls s) = None"
    using that
    by (simp add: request_interceptor_def isTokenExpiringSoon_def Let_def set_pc_def upd_task_def
        dispatch_def set_Authorization_def subscribeTokenRefresh_def)
  from a b c d e show ?thesis by blast
qed

theorem isTokenExpiringSoon_threshold_witness:
  "getTokenExpiry browser_env old_storage = Some (Num 1000000)
   \<and> isTokenExpiringSoon browser_env 700000 old_storage
   \<and> \<not> isTokenExpiringSoon browser_env 699999 old_storage
   \<and> getTokenExpiry browser_env far_expiry_storage = Some (Beyond 99999999999999999999)
   \<and> time_value 700000
   \<and> \<not> isTokenExpiringSoon browser_env 700000 far_expiry_storage
   \<and> getTokenExpiry browser_env (ls (init no_expiry_storage ''/admin'')) = None
   \<and> \<not> isTokenExpiringSoon browser_env 700000 no_expiry_storage
   \<and> refresh_posts (request_interceptor browser_env 700000 0 (init no_expiry_storage ''/admin''))
       = []"
proof -
  have g: "getTokenExpiry browser_env old_storage = Some (Num 1000000)"
    by (simp add: getTokenExpiry_def browser_env_def old_storage_def parseInt_def is_space_def
        is_digit_def digits_value_def number_of_def MAX_SAFE_INTEGER_def)
  have f: "getTokenExpiry browser_env far_expiry_storage = Some (Beyond 99999999999999999999)"
    by (simp add: getTokenExpiry_def browser_env_def far_expiry_storage_def old_storage_def
        parseInt_def is_space_def is_digit_def digits_value_def number_of_def
        MAX_SAFE_INTEGER_def)
  have t: "time_value 700000" by (simp add: time_value_def)
  have n: "getTokenExpiry browser_env no_expiry_storage = None"
    by (simp add: getTokenExpiry_def browser_env_def no_expiry_storage_def old_storage_def)
  have n': "getTokenExpiry browser_env (ls (init no_expiry_storage ''/admin'')) = None"
    using n by (simp add: init_def)
  from isTokenExpiringSoon_threshold [of browser_env old_storage 1000000 700000]
    isTokenExpiringSoon_threshold [of browser_env old_storage 1000000 699999]
    isTokenExpiringSoon_threshold [of browser_env far_expiry_storage _ 700000 99999999999999999999]
    isTokenExpiringSoon_threshold [of browser_env no_expiry_storage _ 700000 _ _
      "init no_expiry_storage ''/admin''" 0]
    g f t n n'
  show ?thesis by (simp add: init_def)
qed




text \<open>
  C10. With an access token present (not empty) and no expiry stored, \<open>isTokenExpired\<close>
  is false and \<open>isAuthenticated\<close> is true.
\<close>

theorem no_expiry_not_expired:
  "getAccessToken env st = Some t \<Longrightarrow> t \<noteq> [] \<Longrightarrow> getTokenExpiry env st = None \<Longrightarrow>
   \<not> isTokenExpired env now st \<and> isAuthenticated env now st"
  by (simp add: isTokenExpired_def isAuthenticated_def)

theorem no_expiry_not_expired_witness:
  "getAccessToken browser_env no_expiry_storage = Some ''old'' \<and> ''old'' \<noteq> []
   \<and> getTokenExpiry browser_env no_expiry_storage = None
   \<and> \<not> isTokenExpired browser_env 5000000 no_expiry_storage
   \<and> isAuthenticated browser_env 5000000 no_expiry_storage"
proof -
  have a: "getAccessToken browser_env no_expiry_storage = Some ''old''"
    by (simp add: getAccessToken_def browser_env_def no_expiry_storage_def old_storage_def)
  have b: "getTokenExpiry browser_env no_expiry_storage = None"
    by (simp add: getTokenExpiry_def browser_env_def no_expiry_storage_def old_storage_def)
  have c: "''old'' \<noteq> []" by simp
  from no_expiry_not_expired [OF a c b, of 5000000] a b c show ?thesis by simp
qed

section \<open>Properties of the HTTP client\<close>

subsection \<open>Frame lemmas\<close>

lemma upd_task_frame [simp]:
  "ls (upd_task i f s) = ls s"
  "pathname (upd_task i f s) = pathname s"
  "location_href (upd_task i f s) = location_href s"
  "isRefreshing (upd_task i f s) = isRefreshing s"
  "refreshSubscribers (upd_task i f s) = refreshSubscribers s"
  "refresh_posts (upd_task i f s) = refresh_posts s"
  "tasks (upd_task i f s) j = (if j = i then f (tasks s i) else tasks s j)"
  by (simp_all add: upd_task_def)

lemma run_callback_frame [simp]:
  "ls (run_callback tok cb s) = ls s"
  "pathname (run_callback tok cb s) = pathname s"
  "location_href (run_callback tok cb s) = location_href s"
  "isRefreshing (run_callback tok cb s) = isRefreshing s"
  "refreshSubscribers (run_callback tok cb s) = refreshSubscribers s"
  "refresh_posts (run_callback tok cb s) = refresh_posts s"
  by (cases cb; simp add: dispatch_def set_Authorization_def set_pc_def)+

lemma fold_callback_frame [simp]:
  "ls (fold (run_callback tok) cbs s) = ls s"
  "pathname (fold (run_callback tok) cbs s) = pathname s"
  "location_href (fold (run_callback tok) cbs s) = location_href s"
  "isRefreshing (fold (run_callback tok) cbs s) = isRefreshing s"
  "refreshSubscribers (fold (run_callback tok) cbs s) = refreshSubscribers s"
  "refresh_posts (fold (run_callback tok) cbs s) = refresh_posts s"
  by (induction cbs arbitrary: s; simp)+

lemma run_callback_refreshing:
  "refreshing (pc (tasks (run_callback tok cb s) j)) \<Longrightarrow> refreshing (pc (tasks s j))"
  by (cases cb) (auto simp add: dispatch_def set_Authorization_def set_pc_def split: if_splits)

lemma fold_callback_refreshing:
  "refreshing (pc (tasks (fold (run_callback tok) cbs s) j)) \<Longrightarrow> refreshing (pc (tasks s j))"
  by (induction cbs arbitrary: s) (auto dest: run_callback_refreshing)

lemma onTokenRefreshed_frame [simp]:
  "ls (onTokenRefreshed tok s) = ls s"
  "pathname (onTokenRefreshed tok s) = pathname s"
  "location_href (onTokenRefreshed tok s) = location_href s"
  "isRefreshing (onTokenRefreshed tok s) = isRefreshing s"
  "refreshSubscribers (onTokenRefreshed tok s) = []"
  "refresh_posts (onTokenRefreshed tok s) = refresh_posts s"
  "tasks (onTokenRefreshed tok s) = tasks (fold (run_callback tok) (refreshSubscribers s) s)"
  by (simp_all add: onTokenRefreshed_def)

lemma redirectToLogin_frame [simp]:
  "isRefreshing (redirectToLogin env r s) = isRefreshing s"
  "refreshSubscribers (redirectToLogin env r s) = refreshSubscribers s"
  "refresh_posts (redirectToLogin env r s) = refresh_posts s"
  "tasks (redirectToLogin env r s) = tasks s"
  "pathname (redirectToLogin env r s) = pathname s"
  by (simp_all add: redirectToLogin_def)

lemma refreshToken_begin_frame [simp]:
  "ls (snd (refreshToken_begin env s)) = ls s"
  "pathname (snd (refreshToken_begin env s)) = pathname s"
  "location_href (snd (refreshToken_begin env s)) = location_href s"
  "isRefreshing (snd (refreshToken_begin env s)) = isRefreshing s"
  "refreshSubscribers (snd (refreshToken_begin env s)) = refreshSubscribers s"
  "tasks (snd (refreshToken_begin env s)) = tasks s"
  by (simp_all add: refreshToken_begin_def Let_def)

lemma refreshToken_end_frame [simp]:
  "pathname (snd (refreshToken_end env p out s)) = pathname s"
  "location_href (snd (refreshToken_end env p out s)) = location_href s"
  "isRefreshing (snd (refreshToken_end env p out s)) = isRefreshing s"
  "refreshSubscribers (snd (refreshToken_end env p out s)) = refreshSubscribers s"
  "refresh_posts (snd (refreshToken_end env p out s)) = refresh_posts s"
  "tasks (snd (refreshToken_end env p out s)) = tasks s"
  by (simp_all add: refreshToken_end_def split: refresh_outcome.splits option.splits)

subsection \<open>One refresh at a time\<close>

lemma init_single_flight: "single_flight (init st path)"
  by (simp add: single_flight_def init_def new_task_def)

lemma request_interceptor_single_flight:
  assumes "single_flight s" and "pc (tasks s i) = Issued"
  shows "single_flight (request_interceptor env now i s)"
  using assms
  by (auto simp add: single_flight_def request_interceptor_def Let_def set_pc_def dispatch_def
      set_Authorization_def subscribeTokenRefresh_def split_beta split: if_splits)

lemma request_interceptor_resume_single_flight:
  assumes "single_flight s" and "pc (tasks s i) = Req_refreshing p"
  shows "single_flight (request_interceptor_resume env p out i s)"
proof -
  have others: "\<not> refreshing (pc (tasks s j))" if "j \<noteq> i" for j
    using assms that unfolding single_flight_def by (metis refreshing.simps(1))
  show ?thesis
    unfolding single_flight_def request_interceptor_resume_def
    by (auto simp add: Let_def split_beta dispatch_def set_Authorization_def
        split: option.splits if_splits dest!: fold_callback_refreshing
        dest: others)
qed


lemma response_error_handler_single_flight:
  assumes "single_flight s" and "pc (tasks s i) = Sent"
  shows "single_flight (response_error_handler env error i s)"
  using assms
  by (auto simp add: single_flight_def response_error_handler_def Let_def set_pc_def
      subscribeTokenRefresh_def split_beta split: if_splits)

lemma response_error_handler_resume_single_flight:
  assumes "single_flight s" and "pc (tasks s i) = Resp_refreshing p error"
  shows "single_flight (response_error_handler_resume env p error out i s)"
proof -
  have others: "\<not> refreshing (pc (tasks s j))" if "j \<noteq> i" for j
    using assms that unfolding single_flight_def by (metis refreshing.simps(2))
  show ?thesis
    unfolding single_flight_def response_error_handler_resume_def
    by (auto simp add: Let_def split_beta set_pc_def set_Authorization_def
        split: option.splits if_splits dest!: fold_callback_refreshing
        dest: others)
qed

lemma step_single_flight:
  "single_flight s \<Longrightarrow> single_flight (step env ev s)"
proof (cases ev)
  case (Run_request i now)
  assume "single_flight s"
  then show ?thesis using Run_request by (simp add: request_interceptor_single_flight)
next
  case (Refresh_settles i out)
  assume "single_flight s"
  then show ?thesis using Refresh_settles
    by (simp add: request_interceptor_resume_single_flight
        response_error_handler_resume_single_flight split: pc.splits)
next
  case (Transport_answers i r)
  assume inv: "single_flight s"
  have "single_flight (set_pc i Resolved s)" if "pc (tasks s i) = Sent"
    using inv that by (auto simp add: single_flight_def set_pc_def split: if_splits)
  then show ?thesis using Transport_answers inv
    by (simp add: response_error_handler_single_flight split: option.splits)
qed

lemma run_single_flight:
  "single_flight s \<Longrightarrow> single_flight (run env evs s)"
  unfolding run_def by (induction evs arbitrary: s) (simp_all add: step_single_flight)

lemma step_posts_only_when_idle:
  assumes "isRefreshing s"
  shows "refresh_posts (step env ev s) = refresh_posts s"
proof (cases ev)
  case (Run_request i now)
  then show ?thesis using assms
    by (simp add: request_interceptor_def Let_def set_pc_def dispatch_def
        set_Authorization_def subscribeTokenRefresh_def)
next
  case (Refresh_settles i out)
  then show ?thesis
    by (simp add: request_interceptor_resume_def response_error_handler_resume_def Let_def
        split_beta dispatch_def set_pc_def set_Authorization_def split: pc.splits option.splits)
next
  case (Transport_answers i r)
  then show ?thesis using assms
    by (simp add: response_error_handler_def Let_def set_pc_def subscribeTokenRefresh_def
        split: option.splits)
qed

lemma in_flight_refreshing: "exchange_in_flight p \<Longrightarrow> refreshing p"
  by (cases p) simp_all

lemma no_second_exchange:
  assumes "exchange_in_flight (pc (tasks (run env evs (init st path)) j))"
  shows "refresh_posts (step env ev (run env evs (init st path)))
         = refresh_posts (run env evs (init st path))"
proof -
  have "single_flight (run env evs (init st path))"
    by (rule run_single_flight [OF init_single_flight])
  with assms have "isRefreshing (run env evs (init st path))"
    unfolding single_flight_def using in_flight_refreshing by blast
  then show ?thesis by (rule step_posts_only_when_idle)
qed

subsection \<open>Subscribers and attempts\<close>

lemma attempts_ok_bound:
  "attempts_ok t \<Longrightarrow> length (sent t) \<le> 2 \<and> (length (sent t) = 2 \<longrightarrow> retry (config t))"
  by (cases "pc t") (auto simp add: attempts_ok_def Let_def split: if_splits)

lemma run_callback_other:
  "j \<noteq> owner cb \<Longrightarrow> tasks (run_callback tok cb s) j = tasks s j"
  by (cases cb) (simp_all add: dispatch_def set_Authorization_def set_pc_def)

lemma fold_callback_other:
  "j \<notin> owner ` set cbs \<Longrightarrow> tasks (fold (run_callback tok) cbs s) j = tasks s j"
  by (induction cbs arbitrary: s) (simp_all add: run_callback_other)

lemma waiting_at_owner:
  "waiting_at s cb \<Longrightarrow> waiting_at s cb' \<Longrightarrow> owner cb = owner cb' \<Longrightarrow> cb = cb'"
  by (cases cb; cases cb') auto

lemma waiting_at_cong:
  "tasks s' (owner cb) = tasks s (owner cb) \<Longrightarrow> waiting_at s cb \<Longrightarrow> waiting_at s' cb"
  by (cases cb) simp_all

lemma run_callback_attempts:
  assumes "waiting_at s cb" and "attempts_ok (tasks s j)"
  shows "attempts_ok (tasks (run_callback tok cb s) j)"
proof (cases "j = owner cb")
  case False
  then show ?thesis using assms(2) by (simp add: run_callback_other)
next
  case True
  show ?thesis
  proof (cases cb)
    case (Req_waiter i)
    then have "pc (tasks s i) = Req_waiting" using assms(1) by simp
    then show ?thesis using assms(2) True Req_waiter
      by (simp add: dispatch_def set_Authorization_def attempts_ok_def Let_def)
  next
    case (Resp_waiter i)
    then have "pc (tasks s i) = Resp_waiting" using assms(1) by simp
    then show ?thesis using assms(2) True Resp_waiter
      by (simp add: set_pc_def set_Authorization_def attempts_ok_def Let_def)
  qed
qed

lemma fold_callback_attempts:
  assumes "distinct cbs" and "list_all (waiting_at s) cbs" and "\<forall>j. attempts_ok (tasks s j)"
  shows "attempts_ok (tasks (fold (run_callback tok) cbs s) j)"
  using assms
proof (induction cbs arbitrary: s)
  case Nil
  then show ?case by simp
next
  case (Cons cb cbs)
  let ?s = "run_callback tok cb s"
  have w: "waiting_at s cb" using Cons.prems(2) by simp
  have l: "list_all (waiting_at ?s) cbs"
    unfolding list_all_iff
  proof
    fix cb' assume in': "cb' \<in> set cbs"
    then have w': "waiting_at s cb'" using Cons.prems(2) by (simp add: list_all_iff)
    have "cb' \<noteq> cb" using in' Cons.prems(1) by auto
    with w w' have "owner cb' \<noteq> owner cb" using waiting_at_owner by blast
    then have "tasks ?s (owner cb') = tasks s (owner cb')" by (rule run_callback_other)
    then show "waiting_at ?s cb'" using w' by (rule waiting_at_cong)
  qed
  have a: "\<forall>j. attempts_ok (tasks ?s j)"
    using w Cons.prems(3) by (simp add: run_callback_attempts)
  have d: "distinct cbs" using Cons.prems(1) by simp
  have "attempts_ok (tasks (fold (run_callback tok) cbs ?s) j)"
    by (rule Cons.IH [OF d l a])
  then show ?case by simp
qed

lemma not_waiting_not_owner:
  assumes "subscribers_ok s" and "pc (tasks s i) \<noteq> Req_waiting" and "pc (tasks s i) \<noteq> Resp_waiting"
  shows "i \<notin> owner ` set (refreshSubscribers s)"
proof
  assume "i \<in> owner ` set (refreshSubscribers s)"
  then obtain cb where cb: "cb \<in> set (refreshSubscribers s)" "owner cb = i" by auto
  then have "waiting_at s cb" using assms(1) by (simp add: subscribers_ok_def list_all_iff)
  with cb(2) assms(2,3) show False by (cases cb) auto
qed

lemma subscribers_ok_upd:
  assumes "subscribers_ok s" and "i \<notin> owner ` set (refreshSubscribers s)"
  shows "subscribers_ok (upd_task i f s)"
proof -
  have "waiting_at (upd_task i f s) cb" if "cb \<in> set (refreshSubscribers s)" for cb
  proof -
    have "owner cb \<noteq> i" using that assms(2) by auto
    then have "tasks (upd_task i f s) (owner cb) = tasks s (owner cb)" by simp
    moreover have "waiting_at s cb" using that assms(1) by (simp add: subscribers_ok_def list_all_iff)
    ultimately show ?thesis by (rule waiting_at_cong)
  qed
  then show ?thesis using assms(1) by (simp add: subscribers_ok_def list_all_iff)
qed

lemma subscribers_ok_frame:
  assumes "subscribers_ok s" and "refreshSubscribers s' = refreshSubscribers s"
    and "\<And>j. j \<noteq> i \<Longrightarrow> tasks s' j = tasks s j"
    and "i \<notin> owner ` set (refreshSubscribers s)"
  shows "subscribers_ok s'"
proof -
  have "waiting_at s' cb" if "cb \<in> set (refreshSubscribers s)" for cb
  proof -
    have "owner cb \<noteq> i" using that assms(4) by auto
    then have "tasks s' (owner cb) = tasks s (owner cb)" by (rule assms(3))
    moreover have "waiting_at s cb" using that assms(1) by (simp add: subscribers_ok_def list_all_iff)
    ultimately show ?thesis by (rule waiting_at_cong)
  qed
  then show ?thesis using assms(1,2) by (simp add: subscribers_ok_def list_all_iff)
qed

lemma subscribers_ok_subscribe:
  assumes "subscribers_ok s" and "refreshSubscribers s' = refreshSubscribers s @ [cb]"
    and "\<And>j. j \<noteq> owner cb \<Longrightarrow> tasks s' j = tasks s j"
    and "owner cb \<notin> owner ` set (refreshSubscribers s)"
    and "waiting_at s' cb"
  shows "subscribers_ok s'"
proof -
  have "waiting_at s' cb'" if "cb' \<in> set (refreshSubscribers s)" for cb'
  proof -
    have "owner cb' \<noteq> owner cb" using that assms(4) by (metis imageI)
    then have "tasks s' (owner cb') = tasks s (owner cb')" by (rule assms(3))
    moreover have "waiting_at s cb'" using that assms(1) by (simp add: subscribers_ok_def list_all_iff)
    ultimately show ?thesis by (rule waiting_at_cong)
  qed
  moreover have "cb \<notin> set (refreshSubscribers s)" using assms(4) by auto
  ultimately show ?thesis using assms(1,2,5) by (simp add: subscribers_ok_def list_all_iff)
qed

lemma attempts_frame:
  assumes "\<forall>j. attempts_ok (tasks s j)" and "\<And>j. j \<noteq> i \<Longrightarrow> tasks s' j = tasks s j"
    and "attempts_ok (tasks s' i)"
  shows "\<forall>j. attempts_ok (tasks s' j)"
  using assms by metis

lemma request_interceptor_retry_inv:
  assumes inv: "retry_inv s" and pc: "pc (tasks s i) = Issued"
  shows "retry_inv (request_interceptor env now i s)"
proof -
  let ?s' = "request_interceptor env now i s"
  have sub: "subscribers_ok s" and att: "\<forall>j. attempts_ok (tasks s j)"
    using inv by (simp_all add: retry_inv_def)
  have notin: "i \<notin> owner ` set (refreshSubscribers s)"
    using sub pc by (intro not_waiting_not_owner) simp_all
  have others: "tasks ?s' j = tasks s j" if "j \<noteq> i" for j
    using that
    by (simp add: request_interceptor_def Let_def split_beta set_pc_def dispatch_def
        set_Authorization_def subscribeTokenRefresh_def)
  have ai: "attempts_ok (tasks s i)" using att by simp
  have mine: "attempts_ok (tasks ?s' i)"
    using ai pc
    by (simp add: request_interceptor_def Let_def split_beta set_pc_def dispatch_def
        set_Authorization_def subscribeTokenRefresh_def attempts_ok_def)
  have a': "\<forall>j. attempts_ok (tasks ?s' j)"
    using att others mine by (rule attempts_frame)
  have s': "subscribers_ok ?s'"
  proof (cases "refreshSubscribers ?s' = refreshSubscribers s")
    case True
    with sub show ?thesis using others notin by (rule subscribers_ok_frame)
  next
    case False
    then have subs: "refreshSubscribers ?s' = refreshSubscribers s @ [Req_waiter i]"
      and w: "waiting_at ?s' (Req_waiter i)"
      by (simp_all add: request_interceptor_def Let_def split_beta set_pc_def dispatch_def
          set_Authorization_def subscribeTokenRefresh_def split: if_splits)
    show ?thesis
      using w by (intro subscribers_ok_subscribe [OF sub subs]) (simp_all add: others notin)
  qed
  from s' a' show ?thesis by (simp add: retry_inv_def)
qed

lemma response_error_handler_retry_inv:
  assumes inv: "retry_inv s" and pc: "pc (tasks s i) = Sent"
  shows "retry_inv (response_error_handler env error i s)"
proof -
  let ?s' = "response_error_handler env error i s"
  have sub: "subscribers_ok s" and att: "\<forall>j. attempts_ok (tasks s j)"
    using inv by (simp_all add: retry_inv_def)
  have notin: "i \<notin> owner ` set (refreshSubscribers s)"
    using sub pc by (intro not_waiting_not_owner) simp_all
  have others: "tasks ?s' j = tasks s j" if "j \<noteq> i" for j
    using that
    by (simp add: response_error_handler_def Let_def split_beta set_pc_def
        subscribeTokenRefresh_def)
  have ai: "attempts_ok (tasks s i)" using att by simp
  have mine: "attempts_ok (tasks ?s' i)"
    using ai pc
    by (simp add: response_error_handler_def Let_def split_beta set_pc_def
        subscribeTokenRefresh_def attempts_ok_def)
  have a': "\<forall>j. attempts_ok (tasks ?s' j)"
    using att others mine by (rule attempts_frame)
  have s': "subscribers_ok ?s'"
  proof (cases "refreshSubscribers ?s' = refreshSubscribers s")
    case True
    with sub show ?thesis using others notin by (rule subscribers_ok_frame)
  next
    case False
    then have subs: "refreshSubscribers ?s' = refreshSubscribers s @ [Resp_waiter i]"
      and w: "waiting_at ?s' (Resp_waiter i)"
      by (simp_all add: response_error_handler_def Let_def split_beta set_pc_def
          subscribeTokenRefresh_def split: if_splits)
    show ?thesis
      using w by (intro subscribers_ok_subscribe [OF sub subs]) (simp_all add: others notin)
  qed
  from s' a' show ?thesis by (simp add: retry_inv_def)
qed

lemma attempts_ok_Authorization [simp]:
  "attempts_ok (t\<lparr>config := (config t)\<lparr>Authorization := v\<rparr>\<rparr>) = attempts_ok t"
  by (simp add: attempts_ok_def)

lemma callbacks_after_set_Authorization:
  assumes inv: "retry_inv s" and notin: "i \<notin> owner ` set (refreshSubscribers s)"
    and same: "tasks s1 = tasks s" "refreshSubscribers s1 = refreshSubscribers s"
  shows "attempts_ok (tasks (onTokenRefreshed tok (set_Authorization i v s1)) j)"
    and "tasks (onTokenRefreshed tok (set_Authorization i v s1)) i
         = (tasks s i)\<lparr>config := (config (tasks s i))\<lparr>Authorization := Some v\<rparr>\<rparr>"
proof -
  let ?a = "set_Authorization i v s1"
  have sub: "subscribers_ok s" and att: "\<forall>j. attempts_ok (tasks s j)"
    using inv by (simp_all add: retry_inv_def)
  have subs: "refreshSubscribers ?a = refreshSubscribers s"
    by (simp add: set_Authorization_def same)
  have "subscribers_ok ?a"
    using sub subs _ notin by (rule subscribers_ok_frame) (simp add: set_Authorization_def same)
  then have d: "distinct (refreshSubscribers ?a)" and l: "list_all (waiting_at ?a) (refreshSubscribers ?a)"
    by (simp_all add: subscribers_ok_def)
  have a: "\<forall>j. attempts_ok (tasks ?a j)"
    using att by (simp add: set_Authorization_def same)
  show "attempts_ok (tasks (onTokenRefreshed tok ?a) j)"
    using fold_callback_attempts [OF d l a] by simp
  have "i \<notin> owner ` set (refreshSubscribers ?a)" using notin subs by simp
  then have "tasks (fold (run_callback tok) (refreshSubscribers ?a) ?a) i = tasks ?a i"
    by (rule fold_callback_other)
  then show "tasks (onTokenRefreshed tok ?a) i
         = (tasks s i)\<lparr>config := (config (tasks s i))\<lparr>Authorization := Some v\<rparr>\<rparr>"
    by (simp add: set_Authorization_def same)
qed

lemma request_interceptor_resume_retry_inv:
  assumes inv: "retry_inv s" and pc: "pc (tasks s i) = Req_refreshing p"
  shows "retry_inv (request_interceptor_resume env p out i s)"
proof -
  let ?s' = "request_interceptor_resume env p out i s"
  let ?s1 = "snd (refreshToken_end env p out s)"
  have sub: "subscribers_ok s" and att: "\<forall>j. attempts_ok (tasks s j)"
    using inv by (simp_all add: retry_inv_def)
  have notin: "i \<notin> owner ` set (refreshSubscribers s)"
    using sub pc by (intro not_waiting_not_owner) simp_all
  have ai: "attempts_ok (tasks s i)" using att by simp
  show ?thesis
  proof (cases "fst (refreshToken_end env p out s)")
    case None
    then have s': "?s' = dispatch i ((redirectToLogin env (current_path env ?s1) ?s1)\<lparr>isRefreshing := False\<rparr>)"
      by (simp add: request_interceptor_resume_def split_beta Let_def)
    have others: "tasks ?s' j = tasks s j" if "j \<noteq> i" for j
      using that by (simp add: s' dispatch_def)
    have subs: "refreshSubscribers ?s' = refreshSubscribers s"
      by (simp add: s' dispatch_def)
    have mine: "attempts_ok (tasks ?s' i)"
      using ai pc by (simp add: s' dispatch_def attempts_ok_def)
    have "subscribers_ok ?s'" using sub subs others notin by (rule subscribers_ok_frame)
    moreover have "\<forall>j. attempts_ok (tasks ?s' j)" using att others mine by (rule attempts_frame)
    ultimately show ?thesis by (simp add: retry_inv_def)
  next
    case (Some t)
    let ?r = "onTokenRefreshed t (set_Authorization i (Bearer t) ?s1)"
    have s': "?s' = dispatch i (?r\<lparr>isRefreshing := False\<rparr>)"
      using Some by (simp add: request_interceptor_resume_def split_beta Let_def)
    have r: "attempts_ok (tasks ?r j)" for j
      by (rule callbacks_after_set_Authorization(1) [OF inv notin]) simp_all
    have ri: "tasks ?r i = (tasks s i)\<lparr>config := (config (tasks s i))\<lparr>Authorization := Some (Bearer t)\<rparr>\<rparr>"
      by (rule callbacks_after_set_Authorization(2) [OF inv notin]) simp_all
    have "attempts_ok (tasks ?s' j)" for j
    proof (cases "j = i")
      case True
      then show ?thesis using ai pc ri by (simp add: s' dispatch_def attempts_ok_def)
    next
      case False
      then show ?thesis using r [of j] by (simp add: s' dispatch_def)
    qed
    moreover have "subscribers_ok ?s'" by (simp add: s' dispatch_def subscribers_ok_def)
    ultimately show ?thesis by (simp add: retry_inv_def)
  qed
qed

lemma response_error_handler_resume_retry_inv:
  assumes inv: "retry_inv s" and pc: "pc (tasks s i) = Resp_refreshing p error"
  shows "retry_inv (response_error_handler_resume env p error out i s)"
proof -
  let ?s' = "response_error_handler_resume env p error out i s"
  let ?s1 = "snd (refreshToken_end env p out s)"
  have sub: "subscribers_ok s" and att: "\<forall>j. attempts_ok (tasks s j)"
    using inv by (simp_all add: retry_inv_def)
  have notin: "i \<notin> owner ` set (refreshSubscribers s)"
    using sub pc by (intro not_waiting_not_owner) simp_all
  have ai: "attempts_ok (tasks s i)" using att by simp
  show ?thesis
  proof (cases "fst (refreshToken_end env p out s)")
    case None
    then have s': "?s' = set_pc i (Rejected (parseApiError error))
        ((redirectToLogin env (current_path env ?s1) ?s1)\<lparr>isRefreshing := False\<rparr>)"
      by (simp add: response_error_handler_resume_def split_beta Let_def)
    have others: "tasks ?s' j = tasks s j" if "j \<noteq> i" for j
      using that by (simp add: s' set_pc_def)
    have subs: "refreshSubscribers ?s' = refreshSubscribers s"
      by (simp add: s' set_pc_def)
    have mine: "attempts_ok (tasks ?s' i)"
      using ai pc by (simp add: s' set_pc_def attempts_ok_def)
    have "subscribers_ok ?s'" using sub subs others notin by (rule subscribers_ok_frame)
    moreover have "\<forall>j. attempts_ok (tasks ?s' j)" using att others mine by (rule attempts_frame)
    ultimately show ?thesis by (simp add: retry_inv_def)
  next
    case (Some t)
    let ?r = "onTokenRefreshed t (set_Authorization i (Bearer t) ?s1)"
    have s': "?s' = (set_pc i Issued ?r)\<lparr>isRefreshing := False\<rparr>"
      using Some by (simp add: response_error_handler_resume_def split_beta Let_def)
    have r: "attempts_ok (tasks ?r j)" for j
      by (rule callbacks_after_set_Authorization(1) [OF inv notin]) simp_all
    have ri: "tasks ?r i = (tasks s i)\<lparr>config := (config (tasks s i))\<lparr>Authorization := Some (Bearer t)\<rparr>\<rparr>"
      by (rule callbacks_after_set_Authorization(2) [OF inv notin]) simp_all
    have "attempts_ok (tasks ?s' j)" for j
    proof (cases "j = i")
      case True
      then show ?thesis using ai pc ri by (simp add: s' set_pc_def attempts_ok_def)
    next
      case False
      then show ?thesis using r [of j] by (simp add: s' set_pc_def)
    qed
    moreover have "subscribers_ok ?s'" by (simp add: s' set_pc_def subscribers_ok_def)
    ultimately show ?thesis by (simp add: retry_inv_def)
  qed
qed

lemma init_retry_inv: "retry_inv (init st path)"
  by (simp add: retry_inv_def subscribers_ok_def attempts_ok_def init_def new_task_def)

lemma step_retry_inv:
  "retry_inv s \<Longrightarrow> retry_inv (step env ev s)"
proof (cases ev)
  case (Run_request i now)
  assume "retry_inv s"
  then show ?thesis using Run_request by (simp add: request_interceptor_retry_inv)
next
  case (Refresh_settles i out)
  assume "retry_inv s"
  then show ?thesis using Refresh_settles
    by (simp add: request_interceptor_resume_retry_inv
        response_error_handler_resume_retry_inv split: pc.splits)
next
  case (Transport_answers i r)
  assume inv: "retry_inv s"
  have "retry_inv (set_pc i Resolved s)" if pc: "pc (tasks s i) = Sent"
  proof -
    have sub: "subscribers_ok s" and att: "\<forall>j. attempts_ok (tasks s j)"
      using inv by (simp_all add: retry_inv_def)
    have notin: "i \<notin> owner ` set (refreshSubscribers s)"
      using sub pc by (intro not_waiting_not_owner) simp_all
    have "subscribers_ok (set_pc i Resolved s)"
      unfolding set_pc_def using sub notin by (rule subscribers_ok_upd)
    moreover have "attempts_ok (tasks (set_pc i Resolved s) j)" for j
      using att [rule_format, of j] att [rule_format, of i] pc
      by (simp add: set_pc_def attempts_ok_def)
    ultimately show ?thesis by (simp add: retry_inv_def)
  qed
  then show ?thesis using Transport_answers inv
    by (simp add: response_error_handler_retry_inv split: option.splits)
qed

lemma run_retry_inv:
  "retry_inv s \<Longrightarrow> retry_inv (run env evs s)"
  unfolding run_def by (induction evs arbitrary: s) (simp_all add: step_retry_inv)

subsection \<open>Retry\<close>

lemmas client_defs =
  run_def request_interceptor_def request_interceptor_resume_def response_error_handler_def
  response_error_handler_resume_def refreshToken_begin_def refreshToken_end_def
  onTokenRefreshed_def subscribeTokenRefresh_def dispatch_def set_Authorization_def set_pc_def
  upd_task_def redirectToLogin_def current_path_def clearAuthData_def storeAuthData_def
  getTokenExpiryFromJwt_def getAccessToken_def getRefreshToken_def getTokenExpiry_def
  isTokenExpiringSoon_def REFRESH_THRESHOLD_def init_def new_task_def Bearer_def resp_status_def
  parseInt_def is_space_def is_digit_def digits_value_def number_of_def MAX_SAFE_INTEGER_def
  decimal_2000000 Let_def

lemma run_callback_retry:
  "retry (config (tasks (run_callback tok cb s) j)) = retry (config (tasks s j))"
  by (cases cb) (simp_all add: dispatch_def set_Authorization_def set_pc_def)

lemma fold_callback_retry:
  "retry (config (tasks (fold (run_callback tok) cbs s) j)) = retry (config (tasks s j))"
  by (induction cbs arbitrary: s) (simp_all add: run_callback_retry)

lemma step_retry_mono:
  assumes "retry (config (tasks s i))"
  shows "retry (config (tasks (step env ev s) i))"
proof (cases ev)
  case (Run_request j now)
  then show ?thesis using assms
    by (auto simp add: request_interceptor_def Let_def split_beta set_pc_def dispatch_def
        set_Authorization_def subscribeTokenRefresh_def)
next
  case (Refresh_settles j out)
  then show ?thesis using assms
    by (auto simp add: request_interceptor_resume_def response_error_handler_resume_def Let_def
        split_beta set_pc_def dispatch_def set_Authorization_def fold_callback_retry
        split: pc.splits option.splits)
next
  case (Transport_answers j r)
  then show ?thesis using assms
    by (auto simp add: response_error_handler_def Let_def split_beta set_pc_def
        subscribeTokenRefresh_def split: option.splits)
qed

lemma retried_then_rejected:
  assumes "retry (config (tasks s i))" and "pc (tasks s i) = Sent"
  shows "step env (Transport_answers i (Some error)) s = set_pc i (Rejected (parseApiError error)) s"
  using assms by (simp add: response_error_handler_def parseApiError_def)

text \<open>
  C3. A new request has \<open>_retry\<close> unset; once set, no step unsets it; in every run from the
  initial state a request goes to the transport at most twice; and when a request with
  \<open>_retry\<close> set is answered by any error, a 401 included, the handler only rejects with
  \<open>parseApiError(error)\<close>: nothing is sent again and no refresh starts.
\<close>

theorem at_most_one_retry:
  "\<not> retry (config (tasks (init st path) i))
   \<and> length (sent (tasks (run env evs (init st path)) i)) \<le> 2
   \<and> (retry (config (tasks s i)) \<longrightarrow> retry (config (tasks (step env ev s) i)))
   \<and> (retry (config (tasks s i)) \<and> pc (tasks s i) = Sent \<longrightarrow>
        step env (Transport_answers i (Some error)) s
          = set_pc i (Rejected (parseApiError error)) s)"
proof -
  have "retry_inv (run env evs (init st path))"
    by (rule run_retry_inv [OF init_retry_inv])
  then have "attempts_ok (tasks (run env evs (init st path)) i)"
    by (simp add: retry_inv_def)
  then have "length (sent (tasks (run env evs (init st path)) i)) \<le> 2"
    using attempts_ok_bound by blast
  moreover have "\<not> retry (config (tasks (init st path) i))"
    by (simp add: init_def new_task_def)
  ultimately show ?thesis
    using step_retry_mono retried_then_rejected by blast
qed

lemma retry_schedule_state:
  "retry (config (tasks (run sample_env retry_schedule (init old_storage ''/admin'')) 0))
   \<and> pc (tasks (run sample_env retry_schedule (init old_storage ''/admin'')) 0) = Sent
   \<and> refresh_posts (run sample_env retry_schedule (init old_storage ''/admin'')) = [''r0'']
   \<and> map Authorization (sent (tasks (run sample_env retry_schedule (init old_storage ''/admin'')) 0))
       = [Some ''Bearer old'', Some ''Bearer new'']"
  by (simp add: retry_schedule_def client_defs sample_env_def sample_jwt_def old_storage_def
      error_401_def full_response_def)

theorem at_most_one_retry_witness:
  "retry (config (tasks (run sample_env retry_schedule (init old_storage ''/admin'')) 0))
   \<and> pc (tasks (run sample_env retry_schedule (init old_storage ''/admin'')) 0) = Sent
   \<and> pc (tasks (step sample_env (Transport_answers 0 (Some error_401))
                 (run sample_env retry_schedule (init old_storage ''/admin''))) 0)
       = Rejected (Inr (new_UnauthorizedError ''An error occurred''))
   \<and> length (sent (tasks (run sample_env (retry_schedule @ [Transport_answers 0 (Some error_401)])
                            (init old_storage ''/admin'')) 0)) \<le> 2"
proof -
  let ?s = "run sample_env retry_schedule (init old_storage ''/admin'')"
  have h: "retry (config (tasks ?s 0)) \<and> pc (tasks ?s 0) = Sent"
    using retry_schedule_state by blast
  have p: "parseApiError error_401 = Inr (new_UnauthorizedError ''An error occurred'')"
    by (simp add: parseApiError_def error_401_def)
  from at_most_one_retry [of old_storage "''/admin''" 0 sample_env
      "retry_schedule @ [Transport_answers 0 (Some error_401)]" ?s _ error_401] h p
  show ?thesis by (simp add: set_pc_def)
qed

subsection \<open>Concurrent requests during a refresh\<close>

lemma leader_starts:
  assumes "truthy (getAccessToken env st)" and "isTokenExpiringSoon env now st"
    and "truthy (getRefreshToken env st)"
  shows "step env (Run_request l now) (init st path)
         = (init st path)\<lparr>isRefreshing := True,
              refresh_posts := [the (getRefreshToken env st)],
              tasks := (\<lambda>_. new_task)(l := new_task\<lparr>pc := Req_refreshing True\<rparr>)\<rparr>"
  using assms
  by (simp add: request_interceptor_def refreshToken_begin_def set_pc_def upd_task_def init_def
      new_task_def Let_def)

lemma follower_waits:
  assumes "isRefreshing s" and "truthy (getAccessToken env (ls s))" and "pc (tasks s i) = Issued"
  shows "step env (Run_request i now) s
         = set_pc i Req_waiting (subscribeTokenRefresh (Req_waiter i) s)"
  using assms by (simp add: request_interceptor_def Let_def)

lemma followers_wait:
  assumes "isRefreshing s" and "truthy (getAccessToken env (ls s))"
    and "\<forall>i\<in>set js. pc (tasks s i) = Issued" and "distinct js"
  shows "ls (fold (step env) (map (\<lambda>i. Run_request i (time i)) js) s) = ls s
    \<and> pathname (fold (step env) (map (\<lambda>i. Run_request i (time i)) js) s) = pathname s
    \<and> location_href (fold (step env) (map (\<lambda>i. Run_request i (time i)) js) s) = location_href s
    \<and> isRefreshing (fold (step env) (map (\<lambda>i. Run_request i (time i)) js) s)
    \<and> refresh_posts (fold (step env) (map (\<lambda>i. Run_request i (time i)) js) s) = refresh_posts s
    \<and> refreshSubscribers (fold (step env) (map (\<lambda>i. Run_request i (time i)) js) s)
        = refreshSubscribers s @ map Req_waiter js
    \<and> (\<forall>i. tasks (fold (step env) (map (\<lambda>i. Run_request i (time i)) js) s) i
          = (if i \<in> set js then (tasks s i)\<lparr>pc := Req_waiting\<rparr> else tasks s i))"
  using assms
proof (induction js arbitrary: s)
  case Nil
  then show ?case by simp
next
  case (Cons j js)
  let ?s = "set_pc j Req_waiting (subscribeTokenRefresh (Req_waiter j) s)"
  have st: "step env (Run_request j (time j)) s = ?s"
    using Cons.prems by (intro follower_waits) simp_all
  have a: "isRefreshing ?s" "truthy (getAccessToken env (ls ?s))"
    using Cons.prems by (simp_all add: set_pc_def subscribeTokenRefresh_def)
  have b: "\<forall>i\<in>set js. pc (tasks ?s i) = Issued"
    using Cons.prems by (auto simp add: set_pc_def subscribeTokenRefresh_def)
  have c: "distinct js" using Cons.prems by simp
  have j: "j \<notin> set js" using Cons.prems by simp
  note IH = Cons.IH [OF a b c]
  have eq: "fold (step env) (map (\<lambda>i. Run_request i (time i)) (j # js)) s
            = fold (step env) (map (\<lambda>i. Run_request i (time i)) js) ?s"
    using st by (simp del: step.simps)
  show ?case
    unfolding eq using IH j by (auto simp add: set_pc_def subscribeTokenRefresh_def)
qed

lemma fold_req_waiters:
  assumes "distinct js"
  shows "tasks (fold (run_callback tok) (map Req_waiter js) s) i
         = (if i \<in> set js
            then (tasks s i)\<lparr>config := (config (tasks s i))\<lparr>Authorization := Some (Bearer tok)\<rparr>,
                   pc := Sent,
                   sent := sent (tasks s i)
                     @ [(config (tasks s i))\<lparr>Authorization := Some (Bearer tok)\<rparr>]\<rparr>
            else tasks s i)"
  using assms
proof (induction js arbitrary: s)
  case Nil
  then show ?case by simp
next
  case (Cons j js)
  then have "j \<notin> set js" "distinct js" by simp_all
  then show ?case
    using Cons.IH [of "run_callback tok (Req_waiter j) s"]
    by (auto simp add: dispatch_def set_Authorization_def)
qed

lemma settle_success:
  assumes pc: "pc (tasks s l) = Req_refreshing True" and d: "accessToken d \<noteq> []"
    and subs: "refreshSubscribers s = map Req_waiter js" and dist: "distinct (l # js)"
  shows "tasks (step env (Refresh_settles l (Post_ok (Some d))) s) i
         = (if i \<in> set (l # js)
            then (tasks s i)\<lparr>config := (config (tasks s i))\<lparr>Authorization := Some (Bearer (accessToken d))\<rparr>,
                   pc := Sent,
                   sent := sent (tasks s i)
                     @ [(config (tasks s i))\<lparr>Authorization := Some (Bearer (accessToken d))\<rparr>]\<rparr>
            else tasks s i)"
proof -
  have js: "distinct js" "l \<notin> set js" using dist by simp_all
  show ?thesis
    using pc d js
    by (simp add: request_interceptor_resume_def refreshToken_end_def Let_def subs
        fold_req_waiters [OF js(1)] dispatch_def set_Authorization_def)
qed

text \<open>
  C1, amended. Let \<open>N \<ge> 1\<close> requests be issued while a token is stored and expiring soon
  and a refresh token is stored, and let the request interceptors of all of them run
  (in any order, \<open>l\<close> first) before the refresh settles. Then exactly one post to the
  refresh endpoint is made, whatever its outcome; when it succeeds with a non-empty
  access token, every one of the \<open>N\<close> requests goes to the transport once, carrying
  \<open>Bearer\<close> and that token. And in every run from the initial state, while a post to the
  refresh endpoint is outstanding no step makes another.
\<close>

theorem single_flight_refresh:
  assumes token: "truthy (getAccessToken env st)"
    and soon: "isTokenExpiringSoon env now st"
    and rt: "truthy (getRefreshToken env st)"
    and dist: "distinct (l # followers)"
  shows
    "refresh_posts (run env (Run_request l now # map (\<lambda>i. Run_request i (time i)) followers
                              @ [Refresh_settles l outcome]) (init st path))
       = [the (getRefreshToken env st)]
     \<and> (outcome = Post_ok (Some d) \<and> accessToken d \<noteq> [] \<longrightarrow>
          (\<forall>i\<in>set (l # followers).
             pc (tasks (run env (Run_request l now # map (\<lambda>i. Run_request i (time i)) followers
                                  @ [Refresh_settles l outcome]) (init st path)) i) = Sent
             \<and> sent (tasks (run env (Run_request l now # map (\<lambda>i. Run_request i (time i)) followers
                                  @ [Refresh_settles l outcome]) (init st path)) i)
                 = [\<lparr>Authorization = Some (Bearer (accessToken d)), retry = False\<rparr>]))
     \<and> ((\<exists>j. exchange_in_flight (pc (tasks (run env evs (init st' path')) j))) \<longrightarrow>
          refresh_posts (step env ev (run env evs (init st' path')))
            = refresh_posts (run env evs (init st' path')))"
proof -
  define s1 where "s1 = step env (Run_request l now) (init st path)"
  define s2 where "s2 = fold (step env) (map (\<lambda>i. Run_request i (time i)) followers) s1"
  define s3 where "s3 = step env (Refresh_settles l outcome) s2"
  have run: "run env (Run_request l now # map (\<lambda>i. Run_request i (time i)) followers
                @ [Refresh_settles l outcome]) (init st path) = s3"
    by (simp add: run_def s1_def s2_def s3_def del: step.simps)
  have s1: "s1 = (init st path)\<lparr>isRefreshing := True,
              refresh_posts := [the (getRefreshToken env st)],
              tasks := (\<lambda>_. new_task)(l := new_task\<lparr>pc := Req_refreshing True\<rparr>)\<rparr>"
    unfolding s1_def using token soon rt by (rule leader_starts)
  have js: "distinct followers" "l \<notin> set followers" using dist by simp_all
  have a: "isRefreshing s1" "truthy (getAccessToken env (ls s1))"
    using token by (simp_all add: s1 init_def)
  have b: "\<forall>i\<in>set followers. pc (tasks s1 i) = Issued"
    using js(2) by (auto simp add: s1 new_task_def)
  note f = followers_wait [OF a b js(1), of time, folded s2_def]
  have ref2: "isRefreshing s2" using f by blast
  have posts2: "refresh_posts s2 = [the (getRefreshToken env st)]"
    using f by (simp add: s1)
  have subs2: "refreshSubscribers s2 = map Req_waiter followers"
    using f by (simp add: s1 init_def)
  have tasks2: "tasks s2 i = (if i \<in> set followers then new_task\<lparr>pc := Req_waiting\<rparr>
                                else if i = l then new_task\<lparr>pc := Req_refreshing True\<rparr>
                                else new_task)" for i
    using f by (simp add: s1 init_def)
  have pcl: "pc (tasks s2 l) = Req_refreshing True"
    using js(2) by (simp add: tasks2)
  have posts3: "refresh_posts s3 = [the (getRefreshToken env st)]"
    unfolding s3_def using step_posts_only_when_idle [OF ref2] posts2 by (simp del: step.simps)
  have sent3: "pc (tasks s3 i) = Sent
      \<and> sent (tasks s3 i) = [\<lparr>Authorization = Some (Bearer (accessToken d)), retry = False\<rparr>]"
    if "outcome = Post_ok (Some d)" "accessToken d \<noteq> []" "i \<in> set (l # followers)" for i
    unfolding s3_def that(1)
    using that(3) settle_success [OF pcl that(2) subs2 dist, of env i] js(2)
    by (auto simp add: tasks2 new_task_def simp del: step.simps)
  have third: "refresh_posts (step env ev (run env evs (init st' path')))
            = refresh_posts (run env evs (init st' path'))"
    if "\<exists>j. exchange_in_flight (pc (tasks (run env evs (init st' path')) j))"
    using that no_second_exchange by blast
  show ?thesis
    unfolding run using posts3 sent3 third by blast
qed

theorem single_flight_refresh_witness:
  "truthy (getAccessToken sample_env old_storage)
   \<and> isTokenExpiringSoon sample_env 700000 old_storage
   \<and> truthy (getRefreshToken sample_env old_storage)
   \<and> distinct [0, 1, 2 :: nat]
   \<and> refresh_posts (run sample_env three_sends (init old_storage ''/admin'')) = [''r0'']
   \<and> pc (tasks (run sample_env three_sends (init old_storage ''/admin'')) 2) = Sent
   \<and> sent (tasks (run sample_env three_sends (init old_storage ''/admin'')) 2)
       = [\<lparr>Authorization = Some ''Bearer new'', retry = False\<rparr>]
   \<and> exchange_in_flight
        (pc (tasks (run sample_env [Run_request 0 700000] (init old_storage ''/admin'')) 0))
   \<and> refresh_posts (step sample_env (Run_request 1 700000)
        (run sample_env [Run_request 0 700000] (init old_storage ''/admin''))) = [''r0'']"
proof -
  have a: "truthy (getAccessToken sample_env old_storage)"
    by (simp add: getAccessToken_def sample_env_def old_storage_def)
  have b: "isTokenExpiringSoon sample_env 700000 old_storage"
    by (simp add: isTokenExpiringSoon_def getTokenExpiry_def REFRESH_THRESHOLD_def
        sample_env_def old_storage_def parseInt_def is_space_def is_digit_def digits_value_def
        number_of_def MAX_SAFE_INTEGER_def)
  have c: "truthy (getRefreshToken sample_env old_storage)"
    by (simp add: getRefreshToken_def sample_env_def old_storage_def)
  have d: "distinct [0, 1, 2 :: nat]" by simp
  have r: "the (getRefreshToken sample_env old_storage) = ''r0''"
    by (simp add: getRefreshToken_def sample_env_def old_storage_def)
  have e: "exchange_in_flight
        (pc (tasks (run sample_env [Run_request 0 700000] (init old_storage ''/admin'')) 0))"
    by (simp add: client_defs sample_env_def old_storage_def)
  have p: "refresh_posts (run sample_env [Run_request 0 700000] (init old_storage ''/admin''))
           = [''r0'']"
    by (simp add: client_defs sample_env_def old_storage_def)
  from single_flight_refresh [OF a b c d, of same_time "Post_ok (Some full_response)"
      "''/admin''" full_response "[Run_request 0 700000]" old_storage "''/admin''"
      "Run_request 1 700000"]
    a b c d e p
  show ?thesis
    by (auto simp add: three_sends_def r Bearer_def full_response_def simp del: step.simps)
qed

text \<open>
  C1, as stated, fails without a stored refresh token: with a token present and expiring
  soon, two concurrent requests make no post to the refresh endpoint at all
  (\<open>refreshToken\<close> returns \<open>null\<close> at once); the first goes out without an
  \<open>Authorization\<close> header and the second stays queued.
\<close>

theorem no_refresh_token_counterexample:
  "truthy (getAccessToken browser_env no_refresh_storage)
   \<and> isTokenExpiringSoon browser_env 700000 no_refresh_storage
   \<and> refresh_posts (run browser_env two_sends_failing (init no_refresh_storage ''/admin'')) = []
   \<and> sent (tasks (run browser_env two_sends_failing (init no_refresh_storage ''/admin'')) 0)
       = [\<lparr>Authorization = None, retry = False\<rparr>]
   \<and> pc (tasks (run browser_env two_sends_failing (init no_refresh_storage ''/admin'')) 1)
       = Req_waiting"
  by (simp add: two_sends_failing_def client_defs browser_env_def no_refresh_storage_def
      old_storage_def)

subsection \<open>Refresh failure\<close>

text \<open>
  C2, as stated, fails: after the refresh fails, the request queued behind it is neither
  rejected nor resolved; its subscriber is still in the queue.
\<close>

theorem waiter_left_pending_counterexample:
  "pc (tasks (run browser_env two_sends_failing (init old_storage ''/admin'')) 1) = Req_waiting
   \<and> refreshSubscribers (run browser_env two_sends_failing (init old_storage ''/admin''))
       = [Req_waiter 1]
   \<and> \<not> isRefreshing (run browser_env two_sends_failing (init old_storage ''/admin''))"
  by (simp add: two_sends_failing_def client_defs browser_env_def old_storage_def)

text \<open>
  C2, amended. In a browser, when \<open>refreshToken\<close> gives \<open>null\<close> the interceptor that
  awaited it resets \<open>isRefreshing\<close>, clears the stored credentials and assigns the login
  URL to \<open>window.location.href\<close> once, with the current path as return URL; it makes no
  further post, and it leaves the queue of subscribers and every other request as they
  were.
\<close>

theorem refresh_failure:
  assumes win: "has_window env"
    and at: "pc (tasks s i) = Req_refreshing posted \<or> pc (tasks s i) = Resp_refreshing posted error"
    and failed: "fst (refreshToken_end env posted outcome s) = None"
  shows "\<not> isRefreshing (step env (Refresh_settles i outcome) s)
    \<and> ls (step env (Refresh_settles i outcome) s)
        = \<lparr>auth_token = None, refresh_token = None, token_expiry = None, user_data = None\<rparr>
    \<and> location_href (step env (Refresh_settles i outcome) s)
        = location_href s @ [LoginUrl (if pathname s = [] then None else Some (pathname s))]
    \<and> refresh_posts (step env (Refresh_settles i outcome) s) = refresh_posts s
    \<and> refreshSubscribers (step env (Refresh_settles i outcome) s) = refreshSubscribers s
    \<and> (\<forall>j. j \<noteq> i \<longrightarrow> tasks (step env (Refresh_settles i outcome) s) j = tasks s j)"
  using at
proof
  assume "pc (tasks s i) = Req_refreshing posted"
  then show ?thesis using win failed
    by (simp add: request_interceptor_resume_def split_beta Let_def dispatch_def
        redirectToLogin_def clearAuthData_def current_path_def)
next
  assume "pc (tasks s i) = Resp_refreshing posted error"
  then show ?thesis using win failed
    by (simp add: response_error_handler_resume_def split_beta Let_def set_pc_def
        redirectToLogin_def clearAuthData_def current_path_def)
qed

theorem refresh_failure_witness:
  "has_window browser_env
   \<and> pc (tasks (run browser_env [Run_request 0 700000, Run_request 1 700000]
                  (init old_storage ''/admin'')) 0) = Req_refreshing True
   \<and> fst (refreshToken_end browser_env True Post_fails
            (run browser_env [Run_request 0 700000, Run_request 1 700000]
                  (init old_storage ''/admin''))) = None
   \<and> \<not> isRefreshing (run browser_env two_sends_failing (init old_storage ''/admin''))
   \<and> ls (run browser_env two_sends_failing (init old_storage ''/admin''))
       = \<lparr>auth_token = None, refresh_token = None, token_expiry = None, user_data = None\<rparr>
   \<and> location_href (run browser_env two_sends_failing (init old_storage ''/admin''))
       = [LoginUrl (Some ''/admin'')]"
proof -
  let ?s = "run browser_env [Run_request 0 700000, Run_request 1 700000]
              (init old_storage ''/admin'')"
  have w: "has_window browser_env" by (simp add: browser_env_def)
  have at: "pc (tasks ?s 0) = Req_refreshing True"
    by (simp add: client_defs browser_env_def old_storage_def)
  have f: "fst (refreshToken_end browser_env True Post_fails ?s) = None"
    by (simp add: refreshToken_end_def)
  have h: "location_href ?s = []" "pathname ?s = ''/admin''"
    by (simp_all add: client_defs browser_env_def old_storage_def)
  have r: "run browser_env two_sends_failing (init old_storage ''/admin'')
           = step browser_env (Refresh_settles 0 Post_fails) ?s"
    by (simp add: run_def two_sends_failing_def del: step.simps)
  from refresh_failure [OF w disjI1 [OF at] f] w at f h
  show ?thesis unfolding r by (simp del: step.simps)
qed

end
